theory Spec2Isabelle
  imports Main "HOL-Library.Word"
begin

section \<open>Errors and the random source\<close>

text \<open>
  The exceptions the generator can raise: \<open>ValueError\<close> (an empty range given to
  \<open>random.randint\<close>, a negative array dimension), \<open>IndexError\<close> (a tile index outside the
  array) and \<open>OverflowError\<close> (an integer quotient too large for a float).
\<close>

datatype error = ValueError | IndexError | OverflowError

definition bindE :: "error + 'a \<Rightarrow> ('a \<Rightarrow> error + 'b) \<Rightarrow> error + 'b" where
  "bindE m f = (case m of Inl e \<Rightarrow> Inl e | Inr v \<Rightarrow> f v)"

text \<open>
  Python's module-level random stream, once seeded, is a fixed infinite sequence of raw
  draws consumed front first. The stream is passed explicitly: \<open>g 0\<close> is the next raw draw
  and \<open>rng_next g\<close> the stream after it.
\<close>

type_synonym rng = "nat \<Rightarrow> nat"

definition rng_next :: "rng \<Rightarrow> rng" where
  "rng_next g = (\<lambda>n. g (Suc n))"

text \<open>
  \<open>random.randint(a, b)\<close>: an integer of \<open>[a, b]\<close>, both ends included, chosen by the next
  raw draw; \<open>ValueError\<close> when the range is empty.
\<close>

definition randint :: "int \<Rightarrow> int \<Rightarrow> rng \<Rightarrow> error + (int \<times> rng)" where
  "randint a b g =
     (if b < a then Inl ValueError
      else Inr (a + int (g 0 mod nat (b - a + 1)), rng_next g))"

text \<open>
  \<open>random.random() < num / den\<close>: the next raw draw, reduced modulo \<open>den\<close>, stands for the
  float of \<open>[0, 1)\<close>; only the outcome of the comparison is used by the generator.
\<close>

definition random_lt :: "nat \<Rightarrow> nat \<Rightarrow> rng \<Rightarrow> bool \<times> rng" where
  "random_lt num den g = (g 0 mod den < num, rng_next g)"

section \<open>Tile schema (tile_types.py)\<close>

record graphic =
  ch :: "32 word"
  fg :: "8 word \<times> 8 word \<times> 8 word"
  bg :: "8 word \<times> 8 word \<times> 8 word"

record tile =
  walkable :: bool
  transparent :: bool
  dark :: graphic
  light :: graphic

definition mk_graphic ::
  "32 word \<times> (8 word \<times> 8 word \<times> 8 word) \<times> (8 word \<times> 8 word \<times> 8 word) \<Rightarrow> graphic" where
  "mk_graphic t = (case t of (c, f, b) \<Rightarrow> \<lparr>ch = c, fg = f, bg = b\<rparr>)"

definition new_tile ::
  "bool \<Rightarrow> bool \<Rightarrow> 32 word \<times> (8 word \<times> 8 word \<times> 8 word) \<times> (8 word \<times> 8 word \<times> 8 word)
     \<Rightarrow> 32 word \<times> (8 word \<times> 8 word \<times> 8 word) \<times> (8 word \<times> 8 word \<times> 8 word) \<Rightarrow> tile" where
  "new_tile w t d l = \<lparr>walkable = w, transparent = t, dark = mk_graphic d, light = mk_graphic l\<rparr>"

definition SHROUD :: graphic where
  "SHROUD = mk_graphic (32, (255, 255, 255), (0, 0, 0))"

definition floor_tile :: tile where
  "floor_tile = new_tile True True (32, (255, 255, 255), (21, 31, 44))
                  (32, (255, 255, 255), (200, 180, 50))"

definition wall_tile :: tile where
  "wall_tile = new_tile False False (32, (255, 255, 255), (1, 3, 12))
                 (32, (255, 255, 255), (130, 110, 50))"

section \<open>Room geometry (procgen.py, RectangularRoom)\<close>

record room =
  x1 :: int
  y1 :: int
  x2 :: int
  y2 :: int

definition RectangularRoom :: "int \<Rightarrow> int \<Rightarrow> int \<Rightarrow> int \<Rightarrow> room" where
  "RectangularRoom x y w h = \<lparr>x1 = x, y1 = y, x2 = x + w, y2 = y + h\<rparr>"

text \<open>
  \<open>int(a / 2)\<close> on a Python integer \<open>a\<close>. The true division gives the double nearest to the
  exact quotient, ties to the even significand, and raises \<open>OverflowError\<close> when that is
  beyond the double range; \<open>int\<close> then truncates toward zero. With \<open>m = |a|\<close>, the doubles
  around \<open>m / 2\<close> are the multiples of \<open>quantum m / 2\<close>, where \<open>quantum m\<close> is \<open>1\<close> up to
  53 bits of \<open>m\<close> and doubles with each further bit.
\<close>

function quantum :: "int \<Rightarrow> int" where
  "quantum m = (if m < 2 ^ 53 then 1 else 2 * quantum (m div 2))"
  by pat_completeness auto
termination
  by (relation "measure nat") auto

declare quantum.simps [simp del]

definition round_half_even :: "int \<Rightarrow> int \<Rightarrow> int" where
  "round_half_even m q =
     (let k = m div q; r = m mod q
      in if 2 * r < q then k * q
         else if q < 2 * r then (k + 1) * q
         else if even k then k * q else (k + 1) * q)"

definition int_of_half :: "int \<Rightarrow> error + int" where
  "int_of_half a =
     (let m = \<bar>a\<bar>; r = round_half_even m (quantum m)
      in if 2 ^ 1025 \<le> r then Inl OverflowError else Inr (sgn a * (r div 2)))"

definition center :: "room \<Rightarrow> error + (int \<times> int)" where
  "center r =
     bindE (int_of_half (x1 r + x2 r)) (\<lambda>center_x.
     bindE (int_of_half (y1 r + y2 r)) (\<lambda>center_y.
       Inr (center_x, center_y)))"

text \<open>The two slices \<open>slice(x1 + 1, x2)\<close> and \<open>slice(y1 + 1, y2)\<close>, each as (start, stop).\<close>

definition inner :: "room \<Rightarrow> (int \<times> int) \<times> (int \<times> int)" where
  "inner r = ((x1 r + 1, x2 r), (y1 r + 1, y2 r))"

definition intersects :: "room \<Rightarrow> room \<Rightarrow> bool" where
  "intersects r other =
     (x1 r \<le> x2 other \<and> x2 r \<ge> x1 other \<and> y1 r \<le> y2 other \<and> y2 r \<ge> y1 other)"

section \<open>The map and its entities\<close>

datatype entity_kind = Player | Orc | Troll

record entity =
  kind :: entity_kind
  ex :: int
  ey :: int

record game_map =
  width :: int
  height :: int
  tiles :: "int \<times> int \<Rightarrow> tile option"
  entities :: "entity list"

text \<open>
  Modelled from the spec: the \<open>GameMap\<close> class (game_map.py), which owns a
  \<open>width \<times> height\<close> array of tiles, pre-filled with wall, and the ordered collection of
  entities. The array is indexed \<open>tiles[x, y]\<close>; a cell outside it holds no tile. An array
  cannot have a negative dimension (\<open>ValueError\<close>). \<open>np_full w h t\<close> is the array of shape
  \<open>(w, h)\<close> filled with \<open>t\<close>.
\<close>

definition np_full :: "int \<Rightarrow> int \<Rightarrow> tile \<Rightarrow> (int \<times> int \<Rightarrow> tile option)" where
  "np_full w h t = (\<lambda>(x, y). if 0 \<le> x \<and> x < w \<and> 0 \<le> y \<and> y < h then Some t else None)"

definition GameMap :: "int \<Rightarrow> int \<Rightarrow> entity list \<Rightarrow> error + game_map" where
  "GameMap w h ents =
     (if w < 0 \<or> h < 0 then Inl ValueError
      else Inr \<lparr>width = w, height = h, tiles = np_full w h wall_tile, entities = ents\<rparr>)"

text \<open>
  Modelled from the spec: array indexing as the tile array does it. A slice
  \<open>slice(a, b)\<close> on an axis of length \<open>n\<close> selects \<open>[a', b')\<close>, where a negative bound counts
  from the end and both bounds are clipped to \<open>[0, n]\<close>. A single index \<open>i\<close> must satisfy
  \<open>-n \<le> i < n\<close> (else \<open>IndexError\<close>), a negative one counting from the end.
\<close>

definition slice_bound :: "int \<Rightarrow> int \<Rightarrow> int" where
  "slice_bound n a = (if a < 0 then max (a + n) 0 else min a n)"

definition fill_slice :: "game_map \<Rightarrow> (int \<times> int) \<times> (int \<times> int) \<Rightarrow> tile \<Rightarrow> game_map" where
  "fill_slice d s t =
     (case s of ((xa, xb), (ya, yb)) \<Rightarrow>
        d\<lparr>tiles := (\<lambda>(x, y).
             if slice_bound (width d) xa \<le> x \<and> x < slice_bound (width d) xb
                \<and> slice_bound (height d) ya \<le> y \<and> y < slice_bound (height d) yb
             then Some t else tiles d (x, y))\<rparr>)"

definition wrap_index :: "int \<Rightarrow> int \<Rightarrow> int" where
  "wrap_index n i = (if i < 0 then i + n else i)"

definition set_tile :: "game_map \<Rightarrow> int \<Rightarrow> int \<Rightarrow> tile \<Rightarrow> error + game_map" where
  "set_tile d x y t =
     (if x < - width d \<or> width d \<le> x \<or> y < - height d \<or> height d \<le> y then Inl IndexError
      else Inr (d\<lparr>tiles := (tiles d)((wrap_index (width d) x, wrap_index (height d) y) \<mapsto> t)\<rparr>))"

text \<open>
  Modelled from the spec: \<open>player.place(x, y, map)\<close> (entity.py) assigns the player's
  position. The player is the first member of the map's collection, which is created as
  \<open>[player]\<close> and only ever extended at its end: \<open>factory.spawn(map, x, y)\<close>
  (entity_factories.py) appends a new monster of the factory's type at \<open>(x, y)\<close>.
\<close>

definition place :: "int \<Rightarrow> int \<Rightarrow> game_map \<Rightarrow> game_map" where
  "place px py d =
     d\<lparr>entities := (case entities d of [] \<Rightarrow> [] | p # es \<Rightarrow> p\<lparr>ex := px, ey := py\<rparr> # es)\<rparr>"

definition spawn :: "entity_kind \<Rightarrow> game_map \<Rightarrow> int \<Rightarrow> int \<Rightarrow> game_map" where
  "spawn k d x y = d\<lparr>entities := entities d @ [\<lparr>kind = k, ex = x, ey = y\<rparr>]\<rparr>"

section \<open>Entity placement (procgen.py, place_entities)\<close>

text \<open>The body of the loop \<open>for i in range(number_of_monsters)\<close>, run \<open>n\<close> times.\<close>

fun place_monsters :: "nat \<Rightarrow> room \<Rightarrow> game_map \<Rightarrow> rng \<Rightarrow> error + (game_map \<times> rng)" where
  "place_monsters 0 r d g = Inr (d, g)"
| "place_monsters (Suc n) r d g =
     bindE (randint (x1 r + 1) (x2 r - 1) g) (\<lambda>(x, ga).
     bindE (randint (y1 r + 1) (y2 r - 1) ga) (\<lambda>(y, gb).
       if \<not> (\<exists>e \<in> set (entities d). ex e = x \<and> ey e = y) then
         (case random_lt 4 5 gb of (orc, gc) \<Rightarrow>
            place_monsters n r (if orc then spawn Orc d x y else spawn Troll d x y) gc)
       else place_monsters n r d gb))"

definition place_entities :: "room \<Rightarrow> game_map \<Rightarrow> int \<Rightarrow> rng \<Rightarrow> error + (game_map \<times> rng)" where
  "place_entities r d maximum_monsters g =
     bindE (randint 0 maximum_monsters g) (\<lambda>(number_of_monsters, ga).
       place_monsters (nat number_of_monsters) r d ga)"

section \<open>Corridor tracer (procgen.py, tunnel_between)\<close>

text \<open>
  Modelled from the spec: \<open>tcod.los.bresenham\<close>, the integer line rasterisation that
  gives every cell of the line from one point to another, both ends included. The walk
  makes one step on the longer axis per cell, \<open>max |dx| |dy|\<close> steps in all, and steps on
  the other axis whenever the error term falls below zero.
\<close>

fun bres_walk ::
  "nat \<Rightarrow> bool \<Rightarrow> int \<Rightarrow> int \<Rightarrow> int \<Rightarrow> int \<Rightarrow> int \<Rightarrow> int \<Rightarrow> int \<Rightarrow> (int \<times> int) list" where
  "bres_walk 0 xmajor stepx stepy ax ay e x y = []"
| "bres_walk (Suc k) xmajor stepx stepy ax ay e x y =
     (if xmajor then
        (if e - ay < 0
         then (x + stepx, y + stepy) # bres_walk k xmajor stepx stepy ax ay (e - ay + ax) (x + stepx) (y + stepy)
         else (x + stepx, y) # bres_walk k xmajor stepx stepy ax ay (e - ay) (x + stepx) y)
      else
        (if e - ax < 0
         then (x + stepx, y + stepy) # bres_walk k xmajor stepx stepy ax ay (e - ax + ay) (x + stepx) (y + stepy)
         else (x, y + stepy) # bres_walk k xmajor stepx stepy ax ay (e - ax) x (y + stepy)))"

definition bresenham :: "int \<times> int \<Rightarrow> int \<times> int \<Rightarrow> (int \<times> int) list" where
  "bresenham p q =
     (case p of (xa, ya) \<Rightarrow> case q of (xb, yb) \<Rightarrow>
        let dx = xb - xa; dy = yb - ya; xmajor = \<bar>dy\<bar> < \<bar>dx\<bar>
        in (xa, ya) # bres_walk (nat (max \<bar>dx\<bar> \<bar>dy\<bar>)) xmajor (sgn dx) (sgn dy)
                        (2 * \<bar>dx\<bar>) (2 * \<bar>dy\<bar>) (if xmajor then \<bar>dx\<bar> else \<bar>dy\<bar>) xa ya)"

text \<open>
  The L-shaped tunnel: one coin flip chooses the corner, then the cells of the two
  segments are yielded in order (the corner twice).
\<close>

definition tunnel_between :: "int \<times> int \<Rightarrow> int \<times> int \<Rightarrow> rng \<Rightarrow> (int \<times> int) list \<times> rng" where
  "tunnel_between start finish g =
     (case start of (xa, ya) \<Rightarrow> case finish of (xb, yb) \<Rightarrow>
      case random_lt 1 2 g of (horizontal_first, ga) \<Rightarrow>
        let corner = (if horizontal_first then (xb, ya) else (xa, yb))
        in (bresenham (xa, ya) corner @ bresenham corner (xb, yb), ga))"

section \<open>Dungeon assembler (procgen.py, generate_dungeon)\<close>

text \<open>\<open>for x, y in path: dungeon.tiles[x, y] = tile_types.floor\<close>\<close>

fun carve_cells :: "(int \<times> int) list \<Rightarrow> game_map \<Rightarrow> error + game_map" where
  "carve_cells [] d = Inr d"
| "carve_cells (c # cs) d = bindE (set_tile d (fst c) (snd c) floor_tile) (carve_cells cs)"

text \<open>
  The state of the generation loop: the map, the list \<open>rooms\<close> of accepted rooms, and
  a ghost field \<open>corridors\<close> that records each path yielded by \<open>tunnel_between\<close>, in
  order. The ghost field is written only; no decision of the generator reads it.
\<close>

record gen_state =
  dungeon :: game_map
  rooms :: "room list"
  corridors :: "(int \<times> int) list list"

text \<open>
  One iteration of \<open>for r in range(max_rooms)\<close>, in two parts. \<open>accept_room\<close> is the
  part of the body below the \<open>continue\<close>, run for a candidate that intersects no accepted
  room: it carves the interior, places the player or digs the tunnel from the previous
  room, populates the room and appends it. \<open>attempt_room\<close> is the whole body: the four
  draws, the candidate, the intersection test, and then \<open>accept_room\<close>.
\<close>

definition accept_room ::
  "room \<Rightarrow> int \<Rightarrow> gen_state \<Rightarrow> rng \<Rightarrow> error + (gen_state \<times> rng)" where
  "accept_room new_room max_monsters_per_room st g =
     (let carved = fill_slice (dungeon st) (inner new_room) floor_tile in
      bindE (if rooms st = [] then
               bindE (center new_room) (\<lambda>(cx, cy).
                 Inr (place cx cy carved, corridors st, g))
             else
               bindE (center (last (rooms st))) (\<lambda>prev_center.
               bindE (center new_room) (\<lambda>new_center.
                 case tunnel_between prev_center new_center g of (path, ga) \<Rightarrow>
                   bindE (carve_cells path carved) (\<lambda>tunnelled.
                     Inr (tunnelled, corridors st @ [path], ga)))))
        (\<lambda>(linked, paths, gb).
           bindE (place_entities new_room linked max_monsters_per_room gb) (\<lambda>(populated, gc).
             Inr (\<lparr>dungeon = populated, rooms = rooms st @ [new_room], corridors = paths\<rparr>,
                  gc))))"

definition attempt_room ::
  "int \<Rightarrow> int \<Rightarrow> int \<Rightarrow> gen_state \<Rightarrow> rng \<Rightarrow> error + (gen_state \<times> rng)" where
  "attempt_room room_min_size room_max_size max_monsters_per_room st g =
     bindE (randint room_min_size room_max_size g) (\<lambda>(room_width, ga).
     bindE (randint room_min_size room_max_size ga) (\<lambda>(room_height, gb).
     bindE (randint 0 (width (dungeon st) - room_width - 1) gb) (\<lambda>(x, gc).
     bindE (randint 0 (height (dungeon st) - room_height - 1) gc) (\<lambda>(y, gd).
       let new_room = RectangularRoom x y room_width room_height in
       if \<exists>other_room \<in> set (rooms st). intersects new_room other_room then Inr (st, gd)
       else accept_room new_room max_monsters_per_room st gd))))"

fun attempts ::
  "nat \<Rightarrow> int \<Rightarrow> int \<Rightarrow> int \<Rightarrow> gen_state \<Rightarrow> rng \<Rightarrow> error + (gen_state \<times> rng)" where
  "attempts 0 room_min_size room_max_size max_monsters_per_room st g = Inr (st, g)"
| "attempts (Suc n) room_min_size room_max_size max_monsters_per_room st g =
     bindE (attempt_room room_min_size room_max_size max_monsters_per_room st g) (\<lambda>(st', g').
       attempts n room_min_size room_max_size max_monsters_per_room st' g')"

text \<open>
  The whole of \<open>generate_dungeon\<close>, returning the final loop state (the map together with
  the local list of rooms); \<open>player\<close> is \<open>engine.player\<close>. \<open>range(max_rooms)\<close> is empty for
  a \<open>max_rooms\<close> of zero or less.
\<close>

definition generate_rooms ::
  "int \<Rightarrow> int \<Rightarrow> int \<Rightarrow> int \<Rightarrow> int \<Rightarrow> int \<Rightarrow> entity \<Rightarrow> rng \<Rightarrow> error + (gen_state \<times> rng)" where
  "generate_rooms max_rooms room_min_size room_max_size map_width map_height
       max_monsters_per_room player g =
     bindE (GameMap map_width map_height [player]) (\<lambda>d.
       attempts (nat max_rooms) room_min_size room_max_size max_monsters_per_room
         \<lparr>dungeon = d, rooms = [], corridors = []\<rparr> g)"

definition generate_dungeon ::
  "int \<Rightarrow> int \<Rightarrow> int \<Rightarrow> int \<Rightarrow> int \<Rightarrow> int \<Rightarrow> entity \<Rightarrow> rng \<Rightarrow> error + game_map" where
  "generate_dungeon max_rooms room_min_size room_max_size map_width map_height
       max_monsters_per_room player g =
     bindE (generate_rooms max_rooms room_min_size room_max_size map_width map_height
              max_monsters_per_room player g) (\<lambda>(st, g'). Inr (dungeon st))"

section \<open>Properties stated by the specification\<close>

text \<open>King adjacency: two cells differ by at most one unit on each axis.\<close>

definition king_adjacent :: "int \<times> int \<Rightarrow> int \<times> int \<Rightarrow> bool" where
  "king_adjacent p q = (\<bar>fst p - fst q\<bar> \<le> 1 \<and> \<bar>snd p - snd q\<bar> \<le> 1)"

text \<open>A sequence of cells in which every two consecutive cells are king-adjacent.\<close>

fun connected_path :: "(int \<times> int) list \<Rightarrow> bool" where
  "connected_path [] = True"
| "connected_path [p] = True"
| "connected_path (p # q # ps) = (king_adjacent p q \<and> connected_path (q # ps))"

text \<open>Membership of a cell in the region selected by two slices, each a half-open range.\<close>

definition in_slices :: "(int \<times> int) \<times> (int \<times> int) \<Rightarrow> int \<times> int \<Rightarrow> bool" where
  "in_slices s c = (case s of ((xa, xb), (ya, yb)) \<Rightarrow>
     xa \<le> fst c \<and> fst c < xb \<and> ya \<le> snd c \<and> snd c < yb)"

text \<open>The cells on which some run of \<open>place_entities\<close>, on some map with some stream,
  adds an entity for the room.\<close>

definition monster_cells :: "room \<Rightarrow> (int \<times> int) set" where
  "monster_cells r =
     {c. \<exists>e d m g d' g'. place_entities r d m g = Inr (d', g') \<and>
           e \<in> set (entities d') \<and> e \<notin> set (entities d) \<and> c = (ex e, ey e)}"

text \<open>A map without entities, used to exhibit runs of \<open>place_entities\<close>.\<close>

definition no_entities :: game_map where
  "no_entities = \<lparr>width = 0, height = 0, tiles = (\<lambda>c. None), entities = []\<rparr>"

text \<open>The stream that starts with the given raw draws and continues with zeros.\<close>

definition stream_of :: "nat list \<Rightarrow> rng" where
  "stream_of xs = (\<lambda>n. if n < length xs then xs ! n else 0)"

text \<open>No two distinct members of a list of rooms intersect.\<close>

definition no_overlap :: "room list \<Rightarrow> bool" where
  "no_overlap rs = (\<forall>i < length rs. \<forall>j < length rs. i \<noteq> j \<longrightarrow> \<not> intersects (rs ! i) (rs ! j))"

text \<open>The cells generation is meant to carve: the interiors of the accepted rooms and the cells of
  the recorded corridor paths.\<close>

definition carved_cells :: "gen_state \<Rightarrow> (int \<times> int) set" where
  "carved_cells st =
     {c. \<exists>r \<in> set (rooms st). in_slices (inner r) c} \<union> {c. \<exists>p \<in> set (corridors st). c \<in> set p}"

text \<open>A room of non-negative extent that lies in the map and leaves the last column and row free.\<close>

definition room_in_map :: "int \<Rightarrow> int \<Rightarrow> room \<Rightarrow> bool" where
  "room_in_map w h r =
     (0 \<le> x1 r \<and> x1 r \<le> x2 r \<and> x2 r \<le> w - 1 \<and> 0 \<le> y1 r \<and> y1 r \<le> y2 r \<and> y2 r \<le> h - 1)"

text \<open>A cell of the \<open>w \<times> h\<close> grid.\<close>

definition cell_in_map :: "int \<Rightarrow> int \<Rightarrow> int \<times> int \<Rightarrow> bool" where
  "cell_in_map w h c = (0 \<le> fst c \<and> fst c < w \<and> 0 \<le> snd c \<and> snd c < h)"

text \<open>The invariant of the generation loop: the map keeps its dimensions, every accepted room
  and every corridor cell lies in the map, and the tile grid is floor exactly on the carved
  cells and otherwise as it was created.\<close>

definition gen_inv :: "int \<Rightarrow> int \<Rightarrow> gen_state \<Rightarrow> bool" where
  "gen_inv w h st =
     (width (dungeon st) = w \<and> height (dungeon st) = h
      \<and> (\<forall>r \<in> set (rooms st). room_in_map w h r)
      \<and> (\<forall>p \<in> set (corridors st). \<forall>c \<in> set p. cell_in_map w h c)
      \<and> tiles (dungeon st) =
          (\<lambda>c. if c \<in> carved_cells st then Some floor_tile else np_full w h wall_tile c))"

text \<open>
  The player in the loop state: alone in the collection while no room is accepted, and
  afterwards its first member, positioned at the center of the first accepted room.
\<close>

definition player_inv :: "entity \<Rightarrow> gen_state \<Rightarrow> bool" where
  "player_inv player st =
     (if rooms st = [] then entities (dungeon st) = [player]
      else \<exists>c ms. center (hd (rooms st)) = Inr c
             \<and> entities (dungeon st) = player\<lparr>ex := fst c, ey := snd c\<rparr> # ms)"

text \<open>
  A sample run, used to exhibit the theorems below on a concrete input: three attempts on
  a \<open>12 \<times> 10\<close> map with room sizes \<open>3\<close> to \<open>4\<close> and at most one monster per room. The
  draws accept a room at \<open>(1, 1)\<close> with a troll in it, reject a second candidate that overlaps
  it, and accept a third at \<open>(7, 5)\<close>, linked to the first by a tunnel.
\<close>

definition sample_player :: entity where
  "sample_player = \<lparr>kind = Player, ex = 0, ey = 0\<rparr>"

definition sample_run :: "error + (gen_state \<times> rng)" where
  "sample_run = generate_rooms 3 3 4 12 10 1 sample_player
     (stream_of [0, 0, 1, 1, 1, 1, 0, 4, 1, 0, 3, 2, 0, 1, 7, 5, 1, 0])"

section \<open>Auxiliary lemmas\<close>

lemma bindE_Inl [simp]: "bindE (Inl e) f = Inl e" by (simp add: bindE_def)

lemma bindE_Inr [simp]: "bindE (Inr v) f = f v" by (simp add: bindE_def)

lemma connected_path_append:
  "connected_path xs \<Longrightarrow> connected_path ys \<Longrightarrow> xs \<noteq> [] \<Longrightarrow> ys \<noteq> [] \<Longrightarrow>
   king_adjacent (last xs) (hd ys) \<Longrightarrow> connected_path (xs @ ys)"
proof (induction xs rule: connected_path.induct)
  case 1
  then show ?case by simp
next
  case (2 p)
  then show ?case by (cases ys) simp_all
next
  case (3 p q ps)
  then show ?case by simp
qed

lemma bres_walk_connected:
  "\<bar>sx\<bar> \<le> 1 \<Longrightarrow> \<bar>sy\<bar> \<le> 1 \<Longrightarrow> connected_path ((x, y) # bres_walk k xm sx sy ax ay e x y)"
proof (induction k arbitrary: x y e)
  case 0
  then show ?case by simp
next
  case (Suc k)
  then show ?case by (cases xm) (simp_all add: king_adjacent_def)
qed

lemma bres_walk_row_last:
  "0 \<le> e \<Longrightarrow> last ((x, y) # bres_walk k True sx sy ax 0 e x y) = (x + sx * int k, y)"
proof (induction k arbitrary: x e)
  case 0
  then show ?case by simp
next
  case (Suc k)
  from Suc.IH [of e "x + sx"] Suc.prems show ?case by (simp add: algebra_simps)
qed

lemma bres_walk_column_last:
  "0 \<le> e \<Longrightarrow> last ((x, y) # bres_walk k False sx sy 0 ay e x y) = (x, y + sy * int k)"
proof (induction k arbitrary: y e)
  case 0
  then show ?case by simp
next
  case (Suc k)
  from Suc.IH [of e "y + sy"] Suc.prems show ?case by (simp add: algebra_simps)
qed

lemma bres_walk_row_set:
  "0 \<le> e \<Longrightarrow> c \<in> set (bres_walk k True sx sy ax 0 e x y) \<Longrightarrow>
   snd c = y \<and> (\<exists>i. 1 \<le> i \<and> i \<le> int k \<and> fst c = x + sx * i)"
proof (induction k arbitrary: x e)
  case 0
  then show ?case by simp
next
  case (Suc k)
  from Suc.prems have "c = (x + sx, y) \<or> c \<in> set (bres_walk k True sx sy ax 0 e (x + sx) y)"
    by simp
  then show ?case
  proof
    assume "c = (x + sx, y)"
    then show ?thesis by (auto intro: exI [of _ 1])
  next
    assume "c \<in> set (bres_walk k True sx sy ax 0 e (x + sx) y)"
    from Suc.IH [OF Suc.prems(1) this] obtain i where
      "snd c = y" "1 \<le> i" "i \<le> int k" "fst c = x + sx + sx * i" by auto
    then show ?thesis by (auto intro!: exI [of _ "i + 1"] simp: algebra_simps)
  qed
qed

lemma bres_walk_column_set:
  "0 \<le> e \<Longrightarrow> c \<in> set (bres_walk k False sx sy 0 ay e x y) \<Longrightarrow>
   fst c = x \<and> (\<exists>i. 1 \<le> i \<and> i \<le> int k \<and> snd c = y + sy * i)"
proof (induction k arbitrary: y e)
  case 0
  then show ?case by simp
next
  case (Suc k)
  from Suc.prems have "c = (x, y + sy) \<or> c \<in> set (bres_walk k False sx sy 0 ay e x (y + sy))"
    by simp
  then show ?case
  proof
    assume "c = (x, y + sy)"
    then show ?thesis by (auto intro: exI [of _ 1])
  next
    assume "c \<in> set (bres_walk k False sx sy 0 ay e x (y + sy))"
    from Suc.IH [OF Suc.prems(1) this] obtain i where
      "fst c = x" "1 \<le> i" "i \<le> int k" "snd c = y + sy + sy * i" by auto
    then show ?thesis by (auto intro!: exI [of _ "i + 1"] simp: algebra_simps)
  qed
qed

lemma bresenham_nonempty: "bresenham p q \<noteq> []"
  by (simp add: bresenham_def Let_def split: prod.splits)

lemma bresenham_hd: "hd (bresenham p q) = p"
  by (simp add: bresenham_def Let_def split: prod.splits)

lemma bresenham_connected: "connected_path (bresenham p q)"
  by (auto simp: bresenham_def Let_def sgn_if intro!: bres_walk_connected split: prod.splits)

lemma bresenham_row_last: "last (bresenham (xa, y) (xb, y)) = (xb, y)"
proof (cases "xa = xb")
  case True
  then show ?thesis by (simp add: bresenham_def)
next
  case False
  then have "last (bresenham (xa, y) (xb, y)) = (xa + sgn (xb - xa) * int (nat \<bar>xb - xa\<bar>), y)"
    unfolding bresenham_def by (simp add: Let_def bres_walk_row_last del: last.simps)
  then show ?thesis by (simp add: sgn_if)
qed

lemma bresenham_column_last: "last (bresenham (x, ya) (x, yb)) = (x, yb)"
proof (cases "ya = yb")
  case True
  then show ?thesis by (simp add: bresenham_def)
next
  case False
  then have "last (bresenham (x, ya) (x, yb)) = (x, ya + sgn (yb - ya) * int (nat \<bar>yb - ya\<bar>))"
    unfolding bresenham_def by (simp add: Let_def bres_walk_column_last del: last.simps)
  then show ?thesis by (simp add: sgn_if)
qed

lemma bresenham_row_set:
  assumes "c \<in> set (bresenham (xa, y) (xb, y))"
  shows "snd c = y \<and> min xa xb \<le> fst c \<and> fst c \<le> max xa xb"
proof (cases "xa = xb")
  case True
  with assms show ?thesis by (simp add: bresenham_def)
next
  case False
  from assms False have "c = (xa, y) \<or>
      c \<in> set (bres_walk (nat \<bar>xb - xa\<bar>) True (sgn (xb - xa)) 0 (2 * \<bar>xb - xa\<bar>) 0 \<bar>xb - xa\<bar> xa y)"
    by (simp add: bresenham_def Let_def)
  then show ?thesis
  proof
    assume "c = (xa, y)"
    then show ?thesis by simp
  next
    assume "c \<in> set (bres_walk (nat \<bar>xb - xa\<bar>) True (sgn (xb - xa)) 0 (2 * \<bar>xb - xa\<bar>) 0 \<bar>xb - xa\<bar> xa y)"
    from bres_walk_row_set [OF _ this] obtain i where
      i: "snd c = y" "1 \<le> i" "i \<le> \<bar>xb - xa\<bar>" "fst c = xa + sgn (xb - xa) * i" by auto
    then show ?thesis by (cases "xa < xb") (auto simp: sgn_if)
  qed
qed

lemma bresenham_column_set:
  assumes "c \<in> set (bresenham (x, ya) (x, yb))"
  shows "fst c = x \<and> min ya yb \<le> snd c \<and> snd c \<le> max ya yb"
proof (cases "ya = yb")
  case True
  with assms show ?thesis by (simp add: bresenham_def)
next
  case False
  from assms False have "c = (x, ya) \<or>
      c \<in> set (bres_walk (nat \<bar>yb - ya\<bar>) False 0 (sgn (yb - ya)) 0 (2 * \<bar>yb - ya\<bar>) \<bar>yb - ya\<bar> x ya)"
    by (simp add: bresenham_def Let_def)
  then show ?thesis
  proof
    assume "c = (x, ya)"
    then show ?thesis by simp
  next
    assume "c \<in> set (bres_walk (nat \<bar>yb - ya\<bar>) False 0 (sgn (yb - ya)) 0 (2 * \<bar>yb - ya\<bar>) \<bar>yb - ya\<bar> x ya)"
    from bres_walk_column_set [OF _ this] obtain i where
      i: "fst c = x" "1 \<le> i" "i \<le> \<bar>yb - ya\<bar>" "snd c = ya + sgn (yb - ya) * i" by auto
    then show ?thesis by (cases "ya < yb") (auto simp: sgn_if)
  qed
qed

lemma bindE_eq_Inr: "bindE m f = Inr r \<longleftrightarrow> (\<exists>v. m = Inr v \<and> f v = Inr r)"
  by (cases m) simp_all

lemma randint_Inr:
  assumes "randint a b g = Inr (v, g')"
  shows "a \<le> v \<and> v \<le> b \<and> g' = rng_next g"
proof -
  from assms have le: "a \<le> b" and v: "v = a + int (g 0 mod nat (b - a + 1))" and g': "g' = rng_next g"
    by (auto simp: randint_def split: if_splits)
  from le have "g 0 mod nat (b - a + 1) < nat (b - a + 1)" by simp
  with le v g' show ?thesis by linarith
qed

lemma randint_ok:
  assumes "a \<le> b"
  shows "\<exists>v. randint a b g = Inr (v, rng_next g) \<and> a \<le> v \<and> v \<le> b"
proof -
  from assms have run: "randint a b g = Inr (a + int (g 0 mod nat (b - a + 1)), rng_next g)"
    by (simp add: randint_def)
  from randint_Inr [OF run] run show ?thesis by blast
qed

lemma in_slices_inner:
  "in_slices (inner r) (x, y) \<longleftrightarrow> x1 r + 1 \<le> x \<and> x < x2 r \<and> y1 r + 1 \<le> y \<and> y < y2 r"
  by (simp add: in_slices_def inner_def)

lemma place_monsters_result:
  "place_monsters n r d g = Inr (d', g') \<Longrightarrow>
   \<exists>new. d' = d\<lparr>entities := entities d @ new\<rparr> \<and>
     (\<forall>e \<in> set new. in_slices (inner r) (ex e, ey e) \<and> kind e \<noteq> Player)"
proof (induction n arbitrary: d g)
  case 0
  then show ?case by (auto intro: exI [of _ "[]"])
next
  case (Suc n)
  from Suc.prems obtain x ga y gb where
    x: "randint (x1 r + 1) (x2 r - 1) g = Inr (x, ga)" and
    y: "randint (y1 r + 1) (y2 r - 1) ga = Inr (y, gb)" and
    rest: "(if \<not> (\<exists>e \<in> set (entities d). ex e = x \<and> ey e = y) then
         (case random_lt 4 5 gb of (orc, gc) \<Rightarrow>
            place_monsters n r (if orc then spawn Orc d x y else spawn Troll d x y) gc)
       else place_monsters n r d gb) = Inr (d', g')"
    by (auto simp: bindE_eq_Inr)
  from randint_Inr [OF x] randint_Inr [OF y] have cell: "in_slices (inner r) (x, y)"
    by (simp add: in_slices_inner)
  show ?case
  proof (cases "\<exists>e \<in> set (entities d). ex e = x \<and> ey e = y")
    case True
    with rest have "place_monsters n r d gb = Inr (d', g')" by simp
    from Suc.IH [OF this] show ?thesis .
  next
    case False
    obtain orc gc where coin: "random_lt 4 5 gb = (orc, gc)" by (cases "random_lt 4 5 gb")
    define k where "k = (if orc then Orc else Troll)"
    from rest False coin have "place_monsters n r (spawn k d x y) gc = Inr (d', g')"
      by (simp add: k_def split: if_splits)
    from Suc.IH [OF this] obtain new where
      new: "d' = (spawn k d x y)\<lparr>entities := entities (spawn k d x y) @ new\<rparr>"
        "\<forall>e \<in> set new. in_slices (inner r) (ex e, ey e) \<and> kind e \<noteq> Player" by blast
    have "d' = d\<lparr>entities := entities d @ (\<lparr>kind = k, ex = x, ey = y\<rparr> # new)\<rparr>"
      using new(1) by (simp add: spawn_def)
    moreover have "\<forall>e \<in> set (\<lparr>kind = k, ex = x, ey = y\<rparr> # new).
        in_slices (inner r) (ex e, ey e) \<and> kind e \<noteq> Player"
      using new(2) cell by (simp add: k_def)
    ultimately show ?thesis by blast
  qed
qed

lemma place_entities_result:
  "place_entities r d m g = Inr (d', g') \<Longrightarrow>
   \<exists>new. d' = d\<lparr>entities := entities d @ new\<rparr> \<and>
     (\<forall>e \<in> set new. in_slices (inner r) (ex e, ey e) \<and> kind e \<noteq> Player)"
  by (auto simp: place_entities_def bindE_eq_Inr dest: place_monsters_result)

lemma rng_next_stream_of [simp]: "rng_next (stream_of (x # xs)) = stream_of xs"
  by (auto simp: rng_next_def stream_of_def fun_eq_iff)

lemma stream_of_0 [simp]: "stream_of (x # xs) 0 = x"
  by (simp add: stream_of_def)

lemma randint_pick:
  assumes "a \<le> v" "v \<le> b"
  shows "randint a b (stream_of (nat (v - a) # xs)) = Inr (v, stream_of xs)"
proof -
  from assms have "nat (v - a) < nat (b - a + 1)" by linarith
  then have "nat (v - a) mod nat (b - a + 1) = nat (v - a)" by (rule mod_less)
  with assms show ?thesis by (simp add: randint_def)
qed

lemma random_lt_pick: "random_lt num den (stream_of (x # xs)) = (x mod den < num, stream_of xs)"
  by (simp add: random_lt_def)

lemma place_entities_reaches:
  assumes "in_slices (inner r) (x, y)"
  shows "place_entities r no_entities 1
           (stream_of [nat (1 - 0), nat (x - (x1 r + 1)), nat (y - (y1 r + 1)), 0]) =
         Inr (no_entities\<lparr>entities := [\<lparr>kind = Orc, ex = x, ey = y\<rparr>]\<rparr>, stream_of [])"
proof -
  from assms have b: "x1 r + 1 \<le> x" "x \<le> x2 r - 1" "y1 r + 1 \<le> y" "y \<le> y2 r - 1"
    by (simp_all add: in_slices_inner)
  have pm: "place_monsters (Suc 0) r no_entities
        (stream_of [nat (x - (x1 r + 1)), nat (y - (y1 r + 1)), 0]) =
      Inr (no_entities\<lparr>entities := [\<lparr>kind = Orc, ex = x, ey = y\<rparr>]\<rparr>, stream_of [])"
    by (simp add: randint_pick [OF b(1,2)] randint_pick [OF b(3,4)] random_lt_pick spawn_def
          no_entities_def)
  have "(0::int) \<le> 1" "(1::int) \<le> 1" by simp_all
  note draw = randint_pick [OF this]
  show ?thesis
    unfolding place_entities_def draw using pm by simp
qed

lemma monster_cells_eq: "monster_cells r = {c. in_slices (inner r) c}"
proof (intro set_eqI iffI)
  fix c assume "c \<in> monster_cells r"
  then obtain e d m g d' g' where
    run: "place_entities r d m g = Inr (d', g')" and
    e: "e \<in> set (entities d')" "e \<notin> set (entities d)" "c = (ex e, ey e)"
    by (auto simp: monster_cells_def)
  from place_entities_result [OF run] e show "c \<in> {c. in_slices (inner r) c}" by auto
next
  fix c assume "c \<in> {c. in_slices (inner r) c}"
  then have c: "in_slices (inner r) (fst c, snd c)" by simp
  let ?e = "\<lparr>kind = Orc, ex = fst c, ey = snd c\<rparr>"
  let ?g = "stream_of [nat (1 - 0), nat (fst c - (x1 r + 1)), nat (snd c - (y1 r + 1)), 0]"
  let ?d' = "no_entities\<lparr>entities := [?e]\<rparr>"
  have "place_entities r no_entities 1 ?g = Inr (?d', stream_of [])"
    by (rule place_entities_reaches [OF c])
  moreover have "?e \<in> set (entities ?d')" by simp
  moreover have "?e \<notin> set (entities no_entities)" by (simp add: no_entities_def)
  moreover have "c = (ex ?e, ey ?e)" by simp
  ultimately show "c \<in> monster_cells r"
    unfolding monster_cells_def by blast
qed

lemma quantum_small: "m < 2 ^ 53 \<Longrightarrow> quantum m = 1" by (simp add: quantum.simps)

lemma quantum_large: "2 ^ 53 \<le> m \<Longrightarrow> quantum m = 2 * quantum (m div 2)"
  by (subst quantum.simps) simp

lemma int_of_half_exact: "\<bar>a\<bar> < 2 ^ 53 \<Longrightarrow> int_of_half a = Inr (sgn a * (\<bar>a\<bar> div 2))"
  by (simp add: int_of_half_def round_half_even_def Let_def quantum_small)

lemma int_of_half_nonneg: "0 \<le> a \<Longrightarrow> a < 2 ^ 53 \<Longrightarrow> int_of_half a = Inr (a div 2)"
  using int_of_half_exact [of a] by (cases "a = 0") (simp_all add: sgn_if)

lemma center_exact:
  assumes "0 \<le> x1 r + x2 r" "x1 r + x2 r < 2 ^ 53" "0 \<le> y1 r + y2 r" "y1 r + y2 r < 2 ^ 53"
  shows "center r = Inr ((x1 r + x2 r) div 2, (y1 r + y2 r) div 2)"
  using assms by (simp add: center_def int_of_half_nonneg)

lemma tunnel_between_cases:
  "fst (tunnel_between (xa, ya) (xb, yb) g) =
     (if g 0 mod 2 < 1 then bresenham (xa, ya) (xb, ya) @ bresenham (xb, ya) (xb, yb)
      else bresenham (xa, ya) (xa, yb) @ bresenham (xa, yb) (xb, yb))"
  by (simp add: tunnel_between_def random_lt_def Let_def)

lemma tunnel_path_row_first:
  "connected_path (bresenham (xa, ya) (xb, ya) @ bresenham (xb, ya) (xb, yb))"
  by (rule connected_path_append)
     (simp_all add: bresenham_connected bresenham_nonempty bresenham_row_last bresenham_hd
        king_adjacent_def)

lemma tunnel_path_column_first:
  "connected_path (bresenham (xa, ya) (xa, yb) @ bresenham (xa, yb) (xb, yb))"
  by (rule connected_path_append)
     (simp_all add: bresenham_connected bresenham_nonempty bresenham_column_last bresenham_hd
        king_adjacent_def)

lemma fill_slice_fields [simp]:
  "width (fill_slice d s t) = width d"
  "height (fill_slice d s t) = height d"
  "entities (fill_slice d s t) = entities d"
  by (simp_all add: fill_slice_def split: prod.splits)

lemma place_fields [simp]:
  "width (place px py d) = width d"
  "height (place px py d) = height d"
  "tiles (place px py d) = tiles d"
  by (simp_all add: place_def)

lemma entities_place_fill [simp]:
  "entities (place px py (fill_slice d s t)) = entities (place px py d)"
  by (simp add: place_def)

lemma set_tile_fields:
  assumes "set_tile d x y t = Inr d'"
  shows "width d' = width d \<and> height d' = height d \<and> entities d' = entities d"
  using assms by (auto simp: set_tile_def split: if_splits)

lemma set_tile_Inr:
  assumes "set_tile d x y t = Inr d'" "0 \<le> x" "0 \<le> y"
  shows "tiles d' = (tiles d)((x, y) \<mapsto> t) \<and> x < width d \<and> y < height d"
  using assms by (auto simp: set_tile_def wrap_index_def split: if_splits)

lemma set_tile_ok:
  assumes "0 \<le> x" "x < width d" "0 \<le> y" "y < height d"
  shows "\<exists>d'. set_tile d x y t = Inr d'"
  using assms by (simp add: set_tile_def)

lemma carve_cells_fields:
  "carve_cells cs d = Inr d' \<Longrightarrow>
   width d' = width d \<and> height d' = height d \<and> entities d' = entities d"
proof (induction cs arbitrary: d)
  case Nil
  then show ?case by simp
next
  case (Cons c cs)
  from Cons.prems obtain d1 where
    s: "set_tile d (fst c) (snd c) floor_tile = Inr d1" and r: "carve_cells cs d1 = Inr d'"
    by (auto simp: bindE_eq_Inr)
  from set_tile_fields [OF s] Cons.IH [OF r] show ?case by simp
qed

lemma carve_cells_Inr:
  "carve_cells cs d = Inr d' \<Longrightarrow> \<forall>c \<in> set cs. 0 \<le> fst c \<and> 0 \<le> snd c \<Longrightarrow>
   tiles d' = (\<lambda>c. if c \<in> set cs then Some floor_tile else tiles d c)
   \<and> (\<forall>c \<in> set cs. fst c < width d \<and> snd c < height d)"
proof (induction cs arbitrary: d)
  case Nil
  then show ?case by simp
next
  case (Cons c cs)
  from Cons.prems(1) obtain d1 where
    s: "set_tile d (fst c) (snd c) floor_tile = Inr d1" and r: "carve_cells cs d1 = Inr d'"
    by (auto simp: bindE_eq_Inr)
  from Cons.prems(2) have nn: "0 \<le> fst c" "0 \<le> snd c" "\<forall>c \<in> set cs. 0 \<le> fst c \<and> 0 \<le> snd c"
    by simp_all
  from set_tile_Inr [OF s nn(1,2)] have
    t1: "tiles d1 = (tiles d)(c \<mapsto> floor_tile)" and b1: "fst c < width d" "snd c < height d"
    by simp_all
  from Cons.IH [OF r nn(3)] have
    t': "tiles d' = (\<lambda>c. if c \<in> set cs then Some floor_tile else tiles d1 c)" and
    b': "\<forall>c \<in> set cs. fst c < width d1 \<and> snd c < height d1" by simp_all
  from set_tile_fields [OF s] b' b1 have "\<forall>c \<in> set (c # cs). fst c < width d \<and> snd c < height d"
    by simp
  moreover from t' t1 have
    "tiles d' = (\<lambda>c'. if c' \<in> set (c # cs) then Some floor_tile else tiles d c')"
    by (auto simp: fun_eq_iff)
  ultimately show ?case by simp
qed

lemma carve_cells_ok:
  "\<forall>c \<in> set cs. 0 \<le> fst c \<and> fst c < width d \<and> 0 \<le> snd c \<and> snd c < height d \<Longrightarrow>
   \<exists>d'. carve_cells cs d = Inr d'"
proof (induction cs arbitrary: d)
  case Nil
  then show ?case by simp
next
  case (Cons c cs)
  from Cons.prems obtain d1 where s: "set_tile d (fst c) (snd c) floor_tile = Inr d1"
    using set_tile_ok [of "fst c" d "snd c" floor_tile] by auto
  from set_tile_fields [OF s] Cons.prems
  have "\<forall>c \<in> set cs. 0 \<le> fst c \<and> fst c < width d1 \<and> 0 \<le> snd c \<and> snd c < height d1" by simp
  from Cons.IH [OF this] s show ?case by simp
qed

lemma place_entities_fields:
  assumes "place_entities r d m g = Inr (d', g')"
  obtains new where "width d' = width d" "height d' = height d" "tiles d' = tiles d"
    "entities d' = entities d @ new"
    "\<forall>e \<in> set new. in_slices (inner r) (ex e, ey e) \<and> kind e \<noteq> Player"
proof -
  from place_entities_result [OF assms] obtain new where
    "d' = d\<lparr>entities := entities d @ new\<rparr>"
    "\<forall>e \<in> set new. in_slices (inner r) (ex e, ey e) \<and> kind e \<noteq> Player" by blast
  then show thesis by (intro that [of new]) simp_all
qed

lemma accept_room_first:
  assumes "accept_room r mm st g = Inr (st', g')" "rooms st = []"
  obtains c new where "center r = Inr c"
    "rooms st' = [r]" "corridors st' = corridors st"
    "width (dungeon st') = width (dungeon st)" "height (dungeon st') = height (dungeon st)"
    "tiles (dungeon st') = tiles (fill_slice (dungeon st) (inner r) floor_tile)"
    "entities (dungeon st') = entities (place (fst c) (snd c) (dungeon st)) @ new"
    "\<forall>e \<in> set new. in_slices (inner r) (ex e, ey e) \<and> kind e \<noteq> Player"
proof -
  let ?carved = "fill_slice (dungeon st) (inner r) floor_tile"
  from assms obtain c populated where
    c: "center r = Inr c" and
    pe: "place_entities r (place (fst c) (snd c) ?carved) mm g = Inr (populated, g')" and
    st': "st' = \<lparr>dungeon = populated, rooms = [r], corridors = corridors st\<rparr>"
    by (auto simp: accept_room_def Let_def bindE_eq_Inr split: prod.splits)
  from pe obtain new where
    "width populated = width (dungeon st)" "height populated = height (dungeon st)"
    "tiles populated = tiles ?carved"
    "entities populated = entities (place (fst c) (snd c) (dungeon st)) @ new"
    "\<forall>e \<in> set new. in_slices (inner r) (ex e, ey e) \<and> kind e \<noteq> Player"
    by (rule place_entities_fields) simp_all
  with c st' show thesis by (intro that [of c new]) simp_all
qed

lemma accept_room_linked:
  assumes "accept_room r mm st g = Inr (st', g')" "rooms st \<noteq> []"
  obtains a b path ga tunnelled new where
    "center (last (rooms st)) = Inr a" "center r = Inr b"
    "tunnel_between a b g = (path, ga)"
    "carve_cells path (fill_slice (dungeon st) (inner r) floor_tile) = Inr tunnelled"
    "rooms st' = rooms st @ [r]" "corridors st' = corridors st @ [path]"
    "width (dungeon st') = width (dungeon st)" "height (dungeon st') = height (dungeon st)"
    "tiles (dungeon st') = tiles tunnelled"
    "entities (dungeon st') = entities (dungeon st) @ new"
    "\<forall>e \<in> set new. in_slices (inner r) (ex e, ey e) \<and> kind e \<noteq> Player"
proof -
  let ?carved = "fill_slice (dungeon st) (inner r) floor_tile"
  from assms have "bindE
      (bindE (center (last (rooms st))) (\<lambda>prev_center.
       bindE (center r) (\<lambda>new_center.
         case tunnel_between prev_center new_center g of (path, ga) \<Rightarrow>
           bindE (carve_cells path ?carved) (\<lambda>tunnelled.
             Inr (tunnelled, corridors st @ [path], ga)))))
      (\<lambda>(linked, paths, gb).
         bindE (place_entities r linked mm gb) (\<lambda>(populated, gc).
           Inr (\<lparr>dungeon = populated, rooms = rooms st @ [r], corridors = paths\<rparr>, gc)))
      = Inr (st', g')"
    by (simp add: accept_room_def Let_def)
  then obtain linked paths gb populated where
    l: "bindE (center (last (rooms st))) (\<lambda>prev_center.
       bindE (center r) (\<lambda>new_center.
         case tunnel_between prev_center new_center g of (path, ga) \<Rightarrow>
           bindE (carve_cells path ?carved) (\<lambda>tunnelled.
             Inr (tunnelled, corridors st @ [path], ga)))) = Inr (linked, paths, gb)" and
    pe0: "place_entities r linked mm gb = Inr (populated, g')" and
    st0: "st' = \<lparr>dungeon = populated, rooms = rooms st @ [r], corridors = paths\<rparr>"
    by (auto simp: bindE_eq_Inr)
  from l obtain a b where
    a: "center (last (rooms st)) = Inr a" and b: "center r = Inr b" and
    l2: "(case tunnel_between a b g of (path, ga) \<Rightarrow>
           bindE (carve_cells path ?carved) (\<lambda>tunnelled.
             Inr (tunnelled, corridors st @ [path], ga))) = Inr (linked, paths, gb)"
    by (auto simp: bindE_eq_Inr)
  obtain path ga where t: "tunnel_between a b g = (path, ga)"
    by (cases "tunnel_between a b g")
  from l2 t have cc0: "carve_cells path ?carved = Inr linked" and
    eqs: "paths = corridors st @ [path]" "gb = ga"
    by (auto simp: bindE_eq_Inr)
  define tunnelled where "tunnelled = linked"
  from cc0 have cc: "carve_cells path ?carved = Inr tunnelled" by (simp add: tunnelled_def)
  from pe0 eqs have pe: "place_entities r tunnelled mm ga = Inr (populated, g')"
    by (simp add: tunnelled_def)
  from st0 eqs have
    st': "st' = \<lparr>dungeon = populated, rooms = rooms st @ [r], corridors = corridors st @ [path]\<rparr>"
    by simp
  from carve_cells_fields [OF cc] have f:
    "width tunnelled = width (dungeon st)" "height tunnelled = height (dungeon st)"
    "entities tunnelled = entities (dungeon st)" by simp_all
  from pe obtain new where
    "width populated = width tunnelled" "height populated = height tunnelled"
    "tiles populated = tiles tunnelled"
    "entities populated = entities tunnelled @ new"
    "\<forall>e \<in> set new. in_slices (inner r) (ex e, ey e) \<and> kind e \<noteq> Player"
    by (rule place_entities_fields)
  with a b t cc st' f show thesis by (intro that [of a b path ga tunnelled new]) simp_all
qed

lemma attempt_room_Inr:
  assumes "attempt_room mn mx mm st g = Inr (st', g')"
  obtains (rejected) rw rh x y where
      "\<exists>other \<in> set (rooms st). intersects (RectangularRoom x y rw rh) other" "st' = st"
  | (accepted) rw rh x y gd where
      "mn \<le> rw" "rw \<le> mx" "mn \<le> rh" "rh \<le> mx"
      "0 \<le> x" "x \<le> width (dungeon st) - rw - 1" "0 \<le> y" "y \<le> height (dungeon st) - rh - 1"
      "\<forall>other \<in> set (rooms st). \<not> intersects (RectangularRoom x y rw rh) other"
      "accept_room (RectangularRoom x y rw rh) mm st gd = Inr (st', g')"
proof -
  from assms obtain rw ga rh gb x gc y gd where
    d: "randint mn mx g = Inr (rw, ga)" "randint mn mx ga = Inr (rh, gb)"
       "randint 0 (width (dungeon st) - rw - 1) gb = Inr (x, gc)"
       "randint 0 (height (dungeon st) - rh - 1) gc = Inr (y, gd)" and
    rest: "(if \<exists>other \<in> set (rooms st). intersects (RectangularRoom x y rw rh) other
            then Inr (st, gd) else accept_room (RectangularRoom x y rw rh) mm st gd) = Inr (st', g')"
    by (auto simp: attempt_room_def Let_def bindE_eq_Inr split: prod.splits)
  show thesis
  proof (cases "\<exists>other \<in> set (rooms st). intersects (RectangularRoom x y rw rh) other")
    case True
    with rest show ?thesis by (intro rejected [of x y rw rh]) simp_all
  next
    case False
    with rest have "accept_room (RectangularRoom x y rw rh) mm st gd = Inr (st', g')" by simp
    with False randint_Inr [OF d(1)] randint_Inr [OF d(2)] randint_Inr [OF d(3)]
      randint_Inr [OF d(4)]
    show ?thesis by (intro accepted [of rw rh x y gd]) simp_all
  qed
qed

lemma intersects_sym: "intersects a b = intersects b a"
  by (auto simp: intersects_def)

lemma accept_room_rooms:
  assumes "accept_room r mm st g = Inr (st', g')"
  shows "rooms st' = rooms st @ [r]"
proof (cases "rooms st = []")
  case True
  from assms True show ?thesis by (rule accept_room_first) (simp add: True)
next
  case False
  from assms False show ?thesis by (rule accept_room_linked)
qed

lemma attempts_invariant:
  assumes "attempts n mn mx mm st g = Inr (st', g')" "P st"
    and step: "\<And>s h s' h'. P s \<Longrightarrow> attempt_room mn mx mm s h = Inr (s', h') \<Longrightarrow> P s'"
  shows "P st'"
  using assms(1,2)
proof (induction n arbitrary: st g)
  case 0
  then show ?case by simp
next
  case (Suc n)
  from Suc.prems(1) obtain s1 g1 where
    a: "attempt_room mn mx mm st g = Inr (s1, g1)" and
    r: "attempts n mn mx mm s1 g1 = Inr (st', g')"
    by (auto simp: bindE_eq_Inr)
  from step [OF Suc.prems(2) a] have "P s1" .
  from Suc.IH [OF r this] show ?case .
qed

lemma generate_rooms_invariant:
  assumes "generate_rooms max_rooms mn mx w h mm player g = Inr (st', g')"
    and init: "0 \<le> w \<Longrightarrow> 0 \<le> h \<Longrightarrow>
      P \<lparr>dungeon = \<lparr>width = w, height = h, tiles = np_full w h wall_tile, entities = [player]\<rparr>,
         rooms = [], corridors = []\<rparr>"
    and step: "\<And>s h s' h'. P s \<Longrightarrow> attempt_room mn mx mm s h = Inr (s', h') \<Longrightarrow> P s'"
  shows "P st'"
proof -
  let ?s0 = "\<lparr>dungeon = \<lparr>width = w, height = h, tiles = np_full w h wall_tile, entities = [player]\<rparr>,
         rooms = [], corridors = []\<rparr>"
  from assms(1) have wh: "0 \<le> w" "0 \<le> h" and
    run: "attempts (nat max_rooms) mn mx mm ?s0 g = Inr (st', g')"
    by (auto simp: generate_rooms_def GameMap_def bindE_eq_Inr split: if_splits)
  from run init [OF wh] step show ?thesis by (rule attempts_invariant)
qed

lemma no_overlap_snoc:
  assumes "no_overlap rs" "\<forall>other \<in> set rs. \<not> intersects r other"
  shows "no_overlap (rs @ [r])"
  unfolding no_overlap_def
proof (intro allI impI)
  fix i j assume ij: "i < length (rs @ [r])" "j < length (rs @ [r])" "i \<noteq> j"
  show "\<not> intersects ((rs @ [r]) ! i) ((rs @ [r]) ! j)"
  proof (cases "i < length rs")
    case i: True
    show ?thesis
    proof (cases "j < length rs")
      case True
      with i ij assms(1) show ?thesis by (simp add: no_overlap_def nth_append)
    next
      case False
      with ij have "j = length rs" by simp
      with i assms(2) show ?thesis by (simp add: nth_append intersects_sym [of _ r])
    qed
  next
    case False
    with ij have i: "i = length rs" and j: "j < length rs" by simp_all
    with assms(2) show ?thesis by (simp add: nth_append)
  qed
qed

lemma attempt_room_no_overlap:
  assumes "no_overlap (rooms st)" "attempt_room mn mx mm st g = Inr (st', g')"
  shows "no_overlap (rooms st')"
  using assms(2)
proof (cases rule: attempt_room_Inr)
  case rejected
  with assms(1) show ?thesis by simp
next
  case (accepted rw rh x y gd)
  from accept_room_rooms [OF accepted(10)] accepted(9) assms(1) show ?thesis
    by (simp add: no_overlap_snoc)
qed

lemma quantum_pos: "0 < quantum m"
proof (induction m rule: quantum.induct)
  case (1 m)
  show ?case
  proof (cases "m < 2 ^ 53")
    case True
    then show ?thesis by (simp add: quantum_small)
  next
    case False
    with 1 have "0 < quantum (m div 2)" by simp
    with False show ?thesis by (simp add: quantum_large)
  qed
qed

lemma round_half_even_nonneg:
  assumes "0 \<le> m" "0 < q"
  shows "0 \<le> round_half_even m q"
proof -
  from assms have "0 \<le> m div q" by (simp add: pos_imp_zdiv_nonneg_iff)
  with assms show ?thesis by (simp add: round_half_even_def Let_def)
qed

lemma int_of_half_result_nonneg:
  assumes "int_of_half a = Inr v" "0 \<le> a"
  shows "0 \<le> v"
proof -
  from assms(2) have "0 \<le> round_half_even \<bar>a\<bar> (quantum \<bar>a\<bar>)"
    by (intro round_half_even_nonneg quantum_pos) simp
  then have "0 \<le> round_half_even \<bar>a\<bar> (quantum \<bar>a\<bar>) div 2" by simp
  with assms show ?thesis
    by (auto simp: int_of_half_def Let_def sgn_if split: if_splits)
qed

lemma center_nonneg:
  assumes "center r = Inr c" "0 \<le> x1 r + x2 r" "0 \<le> y1 r + y2 r"
  shows "0 \<le> fst c \<and> 0 \<le> snd c"
proof -
  from assms(1) obtain cx cy where
    "int_of_half (x1 r + x2 r) = Inr cx" "int_of_half (y1 r + y2 r) = Inr cy" "c = (cx, cy)"
    by (auto simp: center_def bindE_eq_Inr)
  with int_of_half_result_nonneg assms(2,3) show ?thesis by auto
qed

lemma tunnel_between_box:
  assumes "tunnel_between a b g = (path, g')" "c \<in> set path"
  shows "min (fst a) (fst b) \<le> fst c \<and> fst c \<le> max (fst a) (fst b)
       \<and> min (snd a) (snd b) \<le> snd c \<and> snd c \<le> max (snd a) (snd b)"
proof -
  obtain xa ya xb yb where ab: "a = (xa, ya)" "b = (xb, yb)" by (cases a, cases b)
  from assms(1) have "path = fst (tunnel_between (xa, ya) (xb, yb) g)" by (simp add: ab)
  with assms(2) have "c \<in> set (bresenham (xa, ya) (xb, ya)) \<or> c \<in> set (bresenham (xb, ya) (xb, yb))
      \<or> c \<in> set (bresenham (xa, ya) (xa, yb)) \<or> c \<in> set (bresenham (xa, yb) (xb, yb))"
    by (auto simp: tunnel_between_cases split: if_splits)
  then show ?thesis
    using bresenham_row_set [of c xa ya xb] bresenham_row_set [of c xa yb xb]
      bresenham_column_set [of c xb ya yb] bresenham_column_set [of c xa ya yb]
    by (auto simp: ab)
qed

lemma fill_slice_inner:
  assumes "room_in_map (width d) (height d) r"
  shows "tiles (fill_slice d (inner r) t) = (\<lambda>c. if in_slices (inner r) c then Some t else tiles d c)"
proof -
  from assms have b: "0 \<le> x1 r" "x1 r \<le> x2 r" "x2 r \<le> width d - 1"
    "0 \<le> y1 r" "y1 r \<le> y2 r" "y2 r \<le> height d - 1"
    by (simp_all add: room_in_map_def)
  then have "slice_bound (width d) (x1 r + 1) = x1 r + 1" "slice_bound (width d) (x2 r) = x2 r"
    "slice_bound (height d) (y1 r + 1) = y1 r + 1" "slice_bound (height d) (y2 r) = y2 r"
    by (simp_all add: slice_bound_def)
  then show ?thesis
    by (auto simp: fill_slice_def inner_def in_slices_def fun_eq_iff)
qed

lemma gen_inv_init:
  "gen_inv w h \<lparr>dungeon = \<lparr>width = w, height = h, tiles = np_full w h wall_tile, entities = ents\<rparr>,
      rooms = [], corridors = []\<rparr>"
  by (simp add: gen_inv_def carved_cells_def)

lemma new_room_in_map:
  assumes "0 \<le> rw" "0 \<le> rh" "0 \<le> x" "x \<le> w - rw - 1" "0 \<le> y" "y \<le> h - rh - 1"
  shows "room_in_map w h (RectangularRoom x y rw rh)"
  using assms by (simp add: room_in_map_def RectangularRoom_def)

lemma room_in_map_cells:
  assumes "room_in_map w h r" "in_slices (inner r) c"
  shows "cell_in_map w h c"
  using assms by (cases c) (simp add: room_in_map_def in_slices_inner cell_in_map_def)

lemma accept_room_gen_inv:
  assumes inv: "gen_inv w h st" and r: "room_in_map w h r"
    and acc: "accept_room r mm st g = Inr (st', g')"
  shows "gen_inv w h st'"
proof (cases "rooms st = []")
  case True
  from inv have wh: "width (dungeon st) = w" "height (dungeon st) = h" by (simp_all add: gen_inv_def)
  from acc True obtain c new where
    f: "rooms st' = [r]" "corridors st' = corridors st"
    "width (dungeon st') = width (dungeon st)" "height (dungeon st') = height (dungeon st)"
    "tiles (dungeon st') = tiles (fill_slice (dungeon st) (inner r) floor_tile)"
    by (rule accept_room_first)
  from r wh have "tiles (fill_slice (dungeon st) (inner r) floor_tile) =
      (\<lambda>c. if in_slices (inner r) c then Some floor_tile else tiles (dungeon st) c)"
    by (intro fill_slice_inner) simp
  moreover have "carved_cells st' = {c. in_slices (inner r) c} \<union> carved_cells st"
    using f True by (auto simp: carved_cells_def)
  ultimately have "tiles (dungeon st') =
      (\<lambda>c. if c \<in> carved_cells st' then Some floor_tile else np_full w h wall_tile c)"
    using inv f by (auto simp: gen_inv_def fun_eq_iff)
  with inv f r True show ?thesis by (simp add: gen_inv_def)
next
  case False
  from inv have wh: "width (dungeon st) = w" "height (dungeon st) = h" by (simp_all add: gen_inv_def)
  from acc False obtain a b path ga tunnelled where
    a: "center (last (rooms st)) = Inr a" and b: "center r = Inr b" and
    t: "tunnel_between a b g = (path, ga)" and
    cc: "carve_cells path (fill_slice (dungeon st) (inner r) floor_tile) = Inr tunnelled" and
    f: "rooms st' = rooms st @ [r]" "corridors st' = corridors st @ [path]"
    "width (dungeon st') = width (dungeon st)" "height (dungeon st') = height (dungeon st)"
    "tiles (dungeon st') = tiles tunnelled"
    by (rule accept_room_linked)
  from False inv have "room_in_map w h (last (rooms st))" by (simp add: gen_inv_def)
  with center_nonneg [OF a] have a0: "0 \<le> fst a" "0 \<le> snd a" by (simp_all add: room_in_map_def)
  from r center_nonneg [OF b] have b0: "0 \<le> fst b" "0 \<le> snd b" by (simp_all add: room_in_map_def)
  have nn: "\<forall>c \<in> set path. 0 \<le> fst c \<and> 0 \<le> snd c"
    using tunnel_between_box [OF t] a0 b0 by fastforce
  from carve_cells_Inr [OF cc nn] wh have
    tt: "tiles tunnelled = (\<lambda>c. if c \<in> set path then Some floor_tile
           else tiles (fill_slice (dungeon st) (inner r) floor_tile) c)" and
    pb: "\<forall>c \<in> set path. fst c < w \<and> snd c < h" by simp_all
  from r wh have fs: "tiles (fill_slice (dungeon st) (inner r) floor_tile) =
      (\<lambda>c. if in_slices (inner r) c then Some floor_tile else tiles (dungeon st) c)"
    by (intro fill_slice_inner) simp
  have "carved_cells st' = set path \<union> {c. in_slices (inner r) c} \<union> carved_cells st"
    using f by (auto simp: carved_cells_def)
  with tt fs f inv have "tiles (dungeon st') =
      (\<lambda>c. if c \<in> carved_cells st' then Some floor_tile else np_full w h wall_tile c)"
    by (auto simp: gen_inv_def fun_eq_iff)
  moreover from nn pb have "\<forall>c \<in> set path. cell_in_map w h c" by (simp add: cell_in_map_def)
  ultimately show ?thesis using inv f r by (auto simp: gen_inv_def)
qed

lemma attempt_room_gen_inv:
  assumes "0 \<le> mn" "gen_inv w h st" "attempt_room mn mx mm st g = Inr (st', g')"
  shows "gen_inv w h st'"
  using assms(3)
proof (cases rule: attempt_room_Inr)
  case rejected
  with assms(2) show ?thesis by simp
next
  case (accepted rw rh x y gd)
  from assms(2) have "width (dungeon st) = w" "height (dungeon st) = h" by (simp_all add: gen_inv_def)
  with accepted assms(1) have "room_in_map w h (RectangularRoom x y rw rh)"
    by (intro new_room_in_map) simp_all
  from accept_room_gen_inv [OF assms(2) this accepted(10)] show ?thesis .
qed

lemma generate_rooms_gen_inv:
  assumes "0 \<le> mn" "generate_rooms max_rooms mn mx w h mm player g = Inr (st, g')"
  shows "gen_inv w h st"
  using assms(2)
  by (rule generate_rooms_invariant) (simp_all add: gen_inv_init attempt_room_gen_inv [OF assms(1)])

lemma bindE_eq_Inl: "bindE m f = Inl e \<longleftrightarrow> m = Inl e \<or> (\<exists>v. m = Inr v \<and> f v = Inl e)"
  by (cases m) simp_all

lemma randint_error: "randint a b g = Inl e \<Longrightarrow> e = ValueError"
  by (simp add: randint_def split: if_splits)

lemma place_monsters_error: "place_monsters n r d g = Inl e \<Longrightarrow> e = ValueError"
proof (induction n arbitrary: d g)
  case 0
  then show ?case by simp
next
  case (Suc n)
  show ?case
  proof (cases "randint (x1 r + 1) (x2 r - 1) g")
    case (Inl e1)
    with Suc.prems randint_error [OF Inl] show ?thesis by simp
  next
    case (Inr xg)
    obtain x ga where xg: "xg = (x, ga)" by (cases xg)
    show ?thesis
    proof (cases "randint (y1 r + 1) (y2 r - 1) ga")
      case (Inl e2)
      with Suc.prems Inr xg randint_error [OF Inl] show ?thesis by simp
    next
      case yg: (Inr yg)
      obtain y gb where yg': "yg = (y, gb)" by (cases yg)
      obtain orc gc where coin: "random_lt 4 5 gb = (orc, gc)" by (cases "random_lt 4 5 gb")
      from Suc.prems Inr xg yg yg' coin
      consider "place_monsters n r (spawn Orc d x y) gc = Inl e"
        | "place_monsters n r (spawn Troll d x y) gc = Inl e"
        | "place_monsters n r d gb = Inl e"
        by (simp split: if_splits)
      then show ?thesis by cases (rule Suc.IH, assumption)+
    qed
  qed
qed

lemma place_entities_error:
  assumes "place_entities r d m g = Inl e"
  shows "e = ValueError"
proof (cases "randint 0 m g")
  case (Inl e1)
  with assms randint_error [OF Inl] show ?thesis by (simp add: place_entities_def)
next
  case (Inr kg)
  obtain k ga where "kg = (k, ga)" by (cases kg)
  with assms Inr have "place_monsters (nat k) r d ga = Inl e" by (simp add: place_entities_def)
  then show ?thesis by (rule place_monsters_error)
qed

lemma center_in_room:
  assumes "0 \<le> x1 r" "x1 r \<le> x2 r" "x2 r < 2 ^ 52" "0 \<le> y1 r" "y1 r \<le> y2 r" "y2 r < 2 ^ 52"
  shows "\<exists>c. center r = Inr c \<and> x1 r \<le> fst c \<and> fst c \<le> x2 r \<and> y1 r \<le> snd c \<and> snd c \<le> y2 r"
proof -
  from assms have "0 \<le> x1 r + x2 r" "x1 r + x2 r < 2 ^ 53" "0 \<le> y1 r + y2 r" "y1 r + y2 r < 2 ^ 53"
    by simp_all
  from center_exact [OF this] have c: "center r = Inr ((x1 r + x2 r) div 2, (y1 r + y2 r) div 2)" .
  from assms have "x1 r \<le> (x1 r + x2 r) div 2" "(x1 r + x2 r) div 2 \<le> x2 r"
    "y1 r \<le> (y1 r + y2 r) div 2" "(y1 r + y2 r) div 2 \<le> y2 r" by linarith+
  with c show ?thesis by simp
qed

lemma center_in_map:
  assumes "room_in_map w h r" "w \<le> 2 ^ 52" "h \<le> 2 ^ 52"
  shows "\<exists>c. center r = Inr c \<and> cell_in_map w h c"
proof -
  from assms have "0 \<le> x1 r" "x1 r \<le> x2 r" "x2 r < 2 ^ 52" "0 \<le> y1 r" "y1 r \<le> y2 r" "y2 r < 2 ^ 52"
    by (simp_all add: room_in_map_def)
  from center_in_room [OF this] assms(1) show ?thesis
    by (auto simp: cell_in_map_def room_in_map_def)
qed

lemma tunnel_between_in_map:
  assumes "cell_in_map w h a" "cell_in_map w h b" "tunnel_between a b g = (path, g')"
  shows "\<forall>c \<in> set path. cell_in_map w h c"
proof
  fix c assume "c \<in> set path"
  from tunnel_between_box [OF assms(3) this] assms(1,2) show "cell_in_map w h c"
    by (auto simp: cell_in_map_def)
qed

lemma accept_room_error:
  assumes inv: "gen_inv w h st" and r: "room_in_map w h r" and wh: "w \<le> 2 ^ 52" "h \<le> 2 ^ 52"
    and err: "accept_room r mm st g = Inl e"
  shows "e = ValueError"
proof -
  let ?carved = "fill_slice (dungeon st) (inner r) floor_tile"
  from center_in_map [OF r wh] obtain b where b: "center r = Inr b" "cell_in_map w h b" by blast
  show ?thesis
  proof (cases "rooms st = []")
    case True
    with err b show ?thesis
      by (auto simp: accept_room_def Let_def bindE_eq_Inl dest: place_entities_error
            split: prod.splits)
  next
    case False
    with inv have "room_in_map w h (last (rooms st))" by (simp add: gen_inv_def)
    from center_in_map [OF this wh] obtain a where
      a: "center (last (rooms st)) = Inr a" "cell_in_map w h a" by blast
    obtain path ga where t: "tunnel_between a b g = (path, ga)" by (cases "tunnel_between a b g")
    from tunnel_between_in_map [OF a(2) b(2) t] inv
    have "\<forall>c \<in> set path. 0 \<le> fst c \<and> fst c < width ?carved \<and> 0 \<le> snd c \<and> snd c < height ?carved"
      by (simp add: cell_in_map_def gen_inv_def)
    from carve_cells_ok [OF this] obtain tunnelled where
      cc: "carve_cells path ?carved = Inr tunnelled" by blast
    from err False a(1) b(1) t cc show ?thesis
      by (auto simp: accept_room_def Let_def bindE_eq_Inl dest: place_entities_error
            split: prod.splits)
  qed
qed

lemma attempt_room_error:
  assumes "0 \<le> mn" "gen_inv w h st" "w \<le> 2 ^ 52" "h \<le> 2 ^ 52"
    and err: "attempt_room mn mx mm st g = Inl e"
  shows "e = ValueError"
proof (rule ccontr)
  assume ne: "e \<noteq> ValueError"
  from assms(2) have wh: "width (dungeon st) = w" "height (dungeon st) = h"
    by (simp_all add: gen_inv_def)
  from err ne obtain rw ga rh gb x gc y gd where
    d: "randint mn mx g = Inr (rw, ga)" "randint mn mx ga = Inr (rh, gb)"
       "randint 0 (w - rw - 1) gb = Inr (x, gc)" "randint 0 (h - rh - 1) gc = Inr (y, gd)" and
    acc: "accept_room (RectangularRoom x y rw rh) mm st gd = Inl e"
    by (auto simp: attempt_room_def Let_def bindE_eq_Inl wh dest: randint_error
          split: prod.splits if_splits)
  from randint_Inr [OF d(1)] randint_Inr [OF d(2)] randint_Inr [OF d(3)] randint_Inr [OF d(4)]
    assms(1)
  have "room_in_map w h (RectangularRoom x y rw rh)" by (intro new_room_in_map) simp_all
  from accept_room_error [OF assms(2) this assms(3,4) acc] ne show False by simp
qed

lemma attempts_error:
  assumes "0 \<le> mn" "w \<le> 2 ^ 52" "h \<le> 2 ^ 52"
  shows "gen_inv w h st \<Longrightarrow> attempts n mn mx mm st g = Inl e \<Longrightarrow> e = ValueError"
proof (induction n arbitrary: st g)
  case 0
  then show ?case by simp
next
  case (Suc n)
  from Suc.prems(2) consider "attempt_room mn mx mm st g = Inl e"
    | s1 g1 where "attempt_room mn mx mm st g = Inr (s1, g1)" "attempts n mn mx mm s1 g1 = Inl e"
    by (auto simp: bindE_eq_Inl)
  then show ?case
  proof cases
    case 1
    from attempt_room_error [OF assms(1) Suc.prems(1) assms(2,3) this] show ?thesis .
  next
    case 2
    from attempt_room_gen_inv [OF assms(1) Suc.prems(1) 2(1)] have "gen_inv w h s1" .
    from Suc.IH [OF this 2(2)] show ?thesis .
  qed
qed

lemma generate_rooms_error:
  assumes "0 \<le> mn" "w \<le> 2 ^ 52" "h \<le> 2 ^ 52"
    and "generate_rooms max_rooms mn mx w h mm player g = Inl e"
  shows "e = ValueError"
proof (cases "w < 0 \<or> h < 0")
  case True
  with assms(4) show ?thesis by (auto simp: generate_rooms_def GameMap_def)
next
  case False
  with assms(4) have "attempts (nat max_rooms) mn mx mm
      \<lparr>dungeon = \<lparr>width = w, height = h, tiles = np_full w h wall_tile, entities = [player]\<rparr>,
         rooms = [], corridors = []\<rparr> g = Inl e"
    by (simp add: generate_rooms_def GameMap_def)
  from attempts_error [OF assms(1-3) gen_inv_init this] show ?thesis .
qed

lemma generate_dungeon_eq:
  "generate_rooms max_rooms mn mx w h mm player g = Inr (st, g') \<Longrightarrow>
   generate_dungeon max_rooms mn mx w h mm player g = Inr (dungeon st)"
  by (simp add: generate_dungeon_def)

lemma sample_run_Inr:
  "generate_rooms 3 3 4 12 10 1 sample_player
      (stream_of [0, 0, 1, 1, 1, 1, 0, 4, 1, 0, 3, 2, 0, 1, 7, 5, 1, 0]) =
   Inr (fst (projr sample_run), snd (projr sample_run))"
proof -
  have "\<not> isl sample_run" by code_simp
  then have "sample_run = Inr (fst (projr sample_run), snd (projr sample_run))"
    by (cases sample_run) simp_all
  then show ?thesis by (simp only: sample_run_def [symmetric])
qed

lemma sample_run_rooms:
  "rooms (fst (projr sample_run)) = [RectangularRoom 1 1 3 3, RectangularRoom 7 5 3 4]"
  by code_simp

lemma sample_run_corridors:
  "corridors (fst (projr sample_run)) =
     [[(2, 2), (2, 3), (2, 4), (2, 5), (2, 6), (2, 7), (2, 7), (3, 7), (4, 7), (5, 7), (6, 7),
       (7, 7), (8, 7)]]"
  by code_simp

lemma attempt_room_player_inv:
  assumes inv: "player_inv player st" and run: "attempt_room mn mx mm st g = Inr (st', g')"
  shows "player_inv player st'"
  using run
proof (cases rule: attempt_room_Inr)
  case (rejected rw rh x y)
  with inv show ?thesis by simp
next
  case (accepted rw rh x y gd)
  let ?r = "RectangularRoom x y rw rh"
  show ?thesis
  proof (cases "rooms st = []")
    case True
    from accepted(10) True obtain c new where
      "center ?r = Inr c" "rooms st' = [?r]"
      "entities (dungeon st') = entities (place (fst c) (snd c) (dungeon st)) @ new"
      by (rule accept_room_first)
    with inv True show ?thesis by (simp add: player_inv_def place_def)
  next
    case False
    from accepted(10) False obtain new where
      "rooms st' = rooms st @ [?r]" "entities (dungeon st') = entities (dungeon st) @ new"
      by (rule accept_room_linked)
    with inv False show ?thesis by (auto simp: player_inv_def)
  qed
qed

lemma generate_rooms_player_inv:
  assumes "generate_rooms max_rooms mn mx w h mm player g = Inr (st, g')"
  shows "player_inv player st"
  using assms
proof (rule generate_rooms_invariant)
  fix s k s' k'
  assume "player_inv player s" "attempt_room mn mx mm s k = Inr (s', k')"
  then show "player_inv player s'" by (rule attempt_room_player_inv)
qed (simp add: player_inv_def)

lemma center_in_inner:
  assumes "2 \<le> x2 r - x1 r" "2 \<le> y2 r - y1 r" "0 \<le> x1 r" "0 \<le> y1 r"
    "x2 r < 2 ^ 52" "y2 r < 2 ^ 52"
  shows "\<exists>c. center r = Inr c \<and> in_slices (inner r) c"
proof -
  from assms have "0 \<le> x1 r + x2 r" "x1 r + x2 r < 2 ^ 53" "0 \<le> y1 r + y2 r" "y1 r + y2 r < 2 ^ 53"
    by simp_all
  from center_exact [OF this] have c: "center r = Inr ((x1 r + x2 r) div 2, (y1 r + y2 r) div 2)" .
  from assms have "x1 r + 1 \<le> (x1 r + x2 r) div 2" "(x1 r + x2 r) div 2 < x2 r"
    "y1 r + 1 \<le> (y1 r + y2 r) div 2" "(y1 r + y2 r) div 2 < y2 r" by linarith+
  with c show ?thesis by (simp add: in_slices_inner)
qed

lemma attempt_room_sizes:
  assumes inv: "\<forall>r \<in> set (rooms st). mn \<le> x2 r - x1 r \<and> mn \<le> y2 r - y1 r"
    and run: "attempt_room mn mx mm st g = Inr (st', g')"
  shows "\<forall>r \<in> set (rooms st'). mn \<le> x2 r - x1 r \<and> mn \<le> y2 r - y1 r"
  using run
proof (cases rule: attempt_room_Inr)
  case (rejected rw rh x y)
  with inv show ?thesis by simp
next
  case (accepted rw rh x y gd)
  from accept_room_rooms [OF accepted(10)] accepted(1,3) inv show ?thesis
    by (simp add: RectangularRoom_def)
qed

lemma generate_rooms_sizes:
  assumes "generate_rooms max_rooms mn mx w h mm player g = Inr (st, g')"
  shows "\<forall>r \<in> set (rooms st). mn \<le> x2 r - x1 r \<and> mn \<le> y2 r - y1 r"
  using assms
proof (rule generate_rooms_invariant)
  fix s k s' k'
  assume "\<forall>r \<in> set (rooms s). mn \<le> x2 r - x1 r \<and> mn \<le> y2 r - y1 r"
    "attempt_room mn mx mm s k = Inr (s', k')"
  then show "\<forall>r \<in> set (rooms s'). mn \<le> x2 r - x1 r \<and> mn \<le> y2 r - y1 r"
    by (rule attempt_room_sizes)
qed simp

lemma first_room_player_floor:
  assumes "2 \<le> mn" "w \<le> 2 ^ 52" "h \<le> 2 ^ 52"
    and run: "generate_rooms max_rooms mn mx w h mm player g = Inr (st, g')"
    and ne: "rooms st \<noteq> []"
  shows "\<exists>c ms. center (hd (rooms st)) = Inr c
           \<and> entities (dungeon st) = player\<lparr>ex := fst c, ey := snd c\<rparr> # ms
           \<and> in_slices (inner (hd (rooms st))) c
           \<and> tiles (dungeon st) c = Some floor_tile"
proof -
  from assms(1) have mn0: "0 \<le> mn" by simp
  from generate_rooms_gen_inv [OF mn0 run] have inv: "gen_inv w h st" .
  from ne have hd: "hd (rooms st) \<in> set (rooms st)" by simp
  with inv have rm: "room_in_map w h (hd (rooms st))" by (simp add: gen_inv_def)
  from generate_rooms_sizes [OF run] hd assms(1)
  have sz: "2 \<le> x2 (hd (rooms st)) - x1 (hd (rooms st))" "2 \<le> y2 (hd (rooms st)) - y1 (hd (rooms st))"
    by fastforce+
  from rm assms(2,3) have "0 \<le> x1 (hd (rooms st))" "0 \<le> y1 (hd (rooms st))"
    "x2 (hd (rooms st)) < 2 ^ 52" "y2 (hd (rooms st)) < 2 ^ 52"
    by (simp_all add: room_in_map_def)
  from center_in_inner [OF sz this] obtain c where
    c: "center (hd (rooms st)) = Inr c" "in_slices (inner (hd (rooms st))) c" by blast
  from generate_rooms_player_inv [OF run] ne c(1) obtain ms where
    "entities (dungeon st) = player\<lparr>ex := fst c, ey := snd c\<rparr> # ms"
    by (auto simp: player_inv_def)
  moreover from inv hd c(2) have "tiles (dungeon st) c = Some floor_tile"
    by (auto simp: gen_inv_def carved_cells_def)
  ultimately show ?thesis using c by blast
qed

lemma place_monsters_ok:
  assumes "x1 r + 1 \<le> x2 r - 1" "y1 r + 1 \<le> y2 r - 1"
  shows "\<exists>d' g'. place_monsters n r d g = Inr (d', g')"
proof (induction n arbitrary: d g)
  case 0
  show ?case by simp
next
  case (Suc n)
  from randint_ok [OF assms(1)] obtain x where
    x: "randint (x1 r + 1) (x2 r - 1) g = Inr (x, rng_next g)" by blast
  from randint_ok [OF assms(2)] obtain y where
    y: "randint (y1 r + 1) (y2 r - 1) (rng_next g) = Inr (y, rng_next (rng_next g))" by blast
  obtain orc gc where coin: "random_lt 4 5 (rng_next (rng_next g)) = (orc, gc)"
    by (cases "random_lt 4 5 (rng_next (rng_next g))")
  from Suc.IH [of "spawn Orc d x y" gc] Suc.IH [of "spawn Troll d x y" gc]
    Suc.IH [of d "rng_next (rng_next g)"]
  show ?case by (simp add: x y coin)
qed

lemma place_entities_ok:
  assumes "0 \<le> m" "x1 r + 1 \<le> x2 r - 1" "y1 r + 1 \<le> y2 r - 1"
  shows "\<exists>d' g'. place_entities r d m g = Inr (d', g')"
proof -
  from randint_ok [OF assms(1)] obtain k where k: "randint 0 m g = Inr (k, rng_next g)" by blast
  from place_monsters_ok [OF assms(2,3), of "nat k" d "rng_next g"] show ?thesis
    by (simp add: place_entities_def k)
qed

lemma first_attempt_accepts:
  assumes "2 \<le> mn" "mn \<le> mx" "mx < w" "mx < h" "0 \<le> mm" "w \<le> 2 ^ 52" "h \<le> 2 ^ 52"
    and st: "st = \<lparr>dungeon = \<lparr>width = w, height = h, tiles = np_full w h wall_tile,
                  entities = [player]\<rparr>, rooms = [], corridors = []\<rparr>"
  shows "\<exists>st' g' r c ms. attempt_room mn mx mm st g = Inr (st', g')
           \<and> rooms st' = [r] \<and> corridors st' = [] \<and> center r = Inr c
           \<and> entities (dungeon st') = player\<lparr>ex := fst c, ey := snd c\<rparr> # ms
           \<and> tiles (dungeon st') =
               (\<lambda>cell. if in_slices (inner r) cell then Some floor_tile
                       else np_full w h wall_tile cell)"
proof -
  from randint_ok [OF assms(2)] obtain rw ga where
    rw: "randint mn mx g = Inr (rw, ga)" "mn \<le> rw" "rw \<le> mx" by blast
  from randint_ok [OF assms(2)] obtain rh gb where
    rh: "randint mn mx ga = Inr (rh, gb)" "mn \<le> rh" "rh \<le> mx" by blast
  from rw assms(3) have "0 \<le> w - rw - 1" by simp
  from randint_ok [OF this] obtain x gc where
    x: "randint 0 (w - rw - 1) gb = Inr (x, gc)" "0 \<le> x" "x \<le> w - rw - 1" by blast
  from rh assms(4) have "0 \<le> h - rh - 1" by simp
  from randint_ok [OF this] obtain y gd where
    y: "randint 0 (h - rh - 1) gc = Inr (y, gd)" "0 \<le> y" "y \<le> h - rh - 1" by blast
  let ?r = "RectangularRoom x y rw rh"
  let ?carved = "fill_slice (dungeon st) (inner ?r) floor_tile"
  from rw rh x y assms(1) have rm: "room_in_map w h ?r" by (intro new_room_in_map) simp_all
  from center_in_map [OF rm assms(6,7)] obtain c where c: "center ?r = Inr c" by blast
  from rw rh assms(1) have "x1 ?r + 1 \<le> x2 ?r - 1" "y1 ?r + 1 \<le> y2 ?r - 1"
    by (simp_all add: RectangularRoom_def)
  from place_entities_ok [OF assms(5) this] obtain d' g' where
    pe: "place_entities ?r (place (fst c) (snd c) ?carved) mm gd = Inr (d', g')" by blast
  let ?st' = "\<lparr>dungeon = d', rooms = [?r], corridors = []\<rparr>"
  from c pe have acc: "accept_room ?r mm st gd = Inr (?st', g')"
    by (cases c) (simp add: accept_room_def st)
  have run: "attempt_room mn mx mm st g = Inr (?st', g')"
    unfolding attempt_room_def using rw(1) rh(1) x(1) y(1) acc by (simp add: st)
  from pe obtain new where
    f: "tiles d' = tiles (place (fst c) (snd c) ?carved)"
       "entities d' = entities (place (fst c) (snd c) ?carved) @ new"
    by (rule place_entities_fields)
  have ts: "tiles (dungeon st) = np_full w h wall_tile" by (simp add: st)
  from rm have fs: "tiles ?carved =
      (\<lambda>cell. if in_slices (inner ?r) cell then Some floor_tile else tiles (dungeon st) cell)"
    by (intro fill_slice_inner) (simp add: st)
  from f(1) have "tiles d' = tiles ?carved" by simp
  then have t: "tiles d' =
      (\<lambda>cell. if in_slices (inner ?r) cell then Some floor_tile else np_full w h wall_tile cell)"
    unfolding fs ts .
  from f(2) have e: "entities d' = player\<lparr>ex := fst c, ey := snd c\<rparr> # new"
    by (simp add: place_def st)
  from run c t e show ?thesis by (intro exI [of _ ?st'] exI [of _ g'] exI [of _ ?r] exI [of _ c]
      exI [of _ new]) simp
qed

lemma attempt_room_value_error:
  assumes "mx < mn \<or> width (dungeon st) \<le> mn \<or> height (dungeon st) \<le> mn"
  shows "attempt_room mn mx mm st g = Inl ValueError"
proof (cases "mx < mn")
  case True
  then show ?thesis by (simp add: attempt_room_def randint_def)
next
  case False
  then have le: "mn \<le> mx" by simp
  from randint_ok [OF le] obtain rw ga where
    rw: "randint mn mx g = Inr (rw, ga)" "mn \<le> rw" by blast
  from randint_ok [OF le] obtain rh gb where
    rh: "randint mn mx ga = Inr (rh, gb)" "mn \<le> rh" by blast
  show ?thesis
  proof (cases "randint 0 (width (dungeon st) - rw - 1) gb")
    case (Inl e)
    from randint_error [OF this] Inl rw rh show ?thesis by (simp add: attempt_room_def)
  next
    case (Inr xg)
    obtain x gc where xg: "xg = (x, gc)" by (cases xg)
    from randint_Inr [OF Inr [unfolded xg]] rw have "mn < width (dungeon st)" by simp
    with assms False rh have "height (dungeon st) - rh - 1 < 0" by simp
    then have "randint 0 (height (dungeon st) - rh - 1) gc = Inl ValueError"
      by (simp add: randint_def)
    with rw rh Inr xg show ?thesis by (simp add: attempt_room_def)
  qed
qed

section \<open>The claims\<close>

subsection \<open>Room geometry\<close>

text \<open>
  Claim C4, as stated, fails: \<open>center\<close> is \<open>int((x1 + x2) / 2)\<close>, a float division followed
  by a truncation toward zero, so a negative odd coordinate sum is not floor-divided. The
  room built by \<open>RectangularRoom(-3, 0, 3, 6)\<close> has center \<open>(-1, 3)\<close>, while the floor-divided
  midpoint of its x-extent is \<open>-2\<close>.
\<close>

theorem center_truncates_counterexample:
  "center (RectangularRoom (- 3) 0 3 6) = Inr (- 1, 3)
   \<and> (x1 (RectangularRoom (- 3) 0 3 6) + x2 (RectangularRoom (- 3) 0 3 6)) div 2 = - 2"
  by (simp add: center_def RectangularRoom_def int_of_half_exact)

text \<open>
  Claim C4, amended: for every room whose coordinate sums \<open>x1 + x2\<close> and \<open>y1 + y2\<close> are
  non-negative and below \<open>2 ^ 53\<close> (where the float division is exact), \<open>center\<close> returns the
  floor-divided midpoint of the bounding box and raises no error; in particular the room
  with \<open>x1 = 0, y1 = 0, x2 = 10, y2 = 6\<close> has center \<open>(5, 3)\<close>.
\<close>

theorem center_midpoint:
  "(0 \<le> x1 r + x2 r \<and> x1 r + x2 r < 2 ^ 53 \<and> 0 \<le> y1 r + y2 r \<and> y1 r + y2 r < 2 ^ 53 \<longrightarrow>
      center r = Inr ((x1 r + x2 r) div 2, (y1 r + y2 r) div 2))
   \<and> center \<lparr>x1 = 0, y1 = 0, x2 = 10, y2 = 6\<rparr> = Inr (5, 3)"
  by (simp add: center_exact)

theorem center_midpoint_witness:
  "center \<lparr>x1 = 3, y1 = 4, x2 = 8, y2 = 11\<rparr> = Inr (5, 7)"
  using center_midpoint [of "\<lparr>x1 = 3, y1 = 4, x2 = 8, y2 = 11\<rparr>"] by simp

subsection \<open>Corridor tracer\<close>

text \<open>
  Claim C5: for every pair of endpoints and every state of the random stream (so for
  either outcome of the coin flip), the sequence produced by \<open>tunnel_between\<close> is not
  empty, starts at \<open>start\<close>, ends at \<open>finish\<close>, and any two consecutive cells differ by at
  most one unit on each axis.
\<close>

theorem tunnel_between_connected:
  "fst (tunnel_between start finish g) \<noteq> []
   \<and> hd (fst (tunnel_between start finish g)) = start
   \<and> last (fst (tunnel_between start finish g)) = finish
   \<and> connected_path (fst (tunnel_between start finish g))"
proof (cases start; cases finish)
  fix xa ya xb yb
  assume s: "start = (xa, ya)" and f: "finish = (xb, yb)"
  show ?thesis
    unfolding s f tunnel_between_cases
    by (simp add: bresenham_nonempty bresenham_hd bresenham_row_last bresenham_column_last
          tunnel_path_row_first tunnel_path_column_first hd_append)
qed

subsection \<open>Entity placement\<close>

text \<open>
  Claim C3, as stated, fails: the positions drawn by \<open>place_entities\<close> are not a proper
  subset of the carved interior. In the room built by \<open>RectangularRoom(0, 0, 3, 3)\<close> the
  draws \<open>1, 1, 1, 0\<close> put an orc on \<open>(2, 2)\<close>, a cell of \<open>inner\<close> whose right neighbour
  \<open>(3, 2)\<close> is already outside the carved region.
\<close>

theorem monster_cells_not_narrower:
  "\<not> monster_cells (RectangularRoom 0 0 3 3) \<subset> {c. in_slices (inner (RectangularRoom 0 0 3 3)) c}
   \<and> place_entities (RectangularRoom 0 0 3 3) no_entities 1 (stream_of [1, 1, 1, 0]) =
       Inr (no_entities\<lparr>entities := [\<lparr>kind = Orc, ex = 2, ey = 2\<rparr>]\<rparr>, stream_of [])
   \<and> in_slices (inner (RectangularRoom 0 0 3 3)) (2, 2)
   \<and> \<not> in_slices (inner (RectangularRoom 0 0 3 3)) (3, 2)"
proof -
  have cell: "in_slices (inner (RectangularRoom 0 0 3 3)) (2, 2)"
    by (simp add: in_slices_inner RectangularRoom_def)
  have "place_entities (RectangularRoom 0 0 3 3) no_entities 1 (stream_of [1, 1, 1, 0]) =
       Inr (no_entities\<lparr>entities := [\<lparr>kind = Orc, ex = 2, ey = 2\<rparr>]\<rparr>, stream_of [])"
    using place_entities_reaches [OF cell] by (simp add: RectangularRoom_def)
  then show ?thesis
    by (simp add: monster_cells_eq in_slices_inner RectangularRoom_def)
qed

text \<open>
  Claim C3, amended: each trial of \<open>place_entities\<close> draws the position from
  \<open>[x1 + 1, x2 - 1] \<times> [y1 + 1, y2 - 1]\<close>, both ends included, and this set of candidate
  positions is exactly the carve region \<open>inner\<close>, that is \<open>[x1 + 1, x2) \<times> [y1 + 1, y2)\<close>:
  every cell a monster can be placed on lies in the carved interior, and every cell of
  the carved interior can receive a monster.
\<close>

theorem monster_cells_inner: "monster_cells r = {c. in_slices (inner r) c}"
  by (rule monster_cells_eq)

subsection \<open>Dungeon assembler\<close>

text \<open>
  Claim C1: in every final state of \<open>generate_dungeon\<close> the accepted rooms are pairwise
  non-intersecting: for all indices \<open>i \<noteq> j\<close> of the list of accepted rooms,
  \<open>intersects\<close> is false on the two rooms.
\<close>

theorem accepted_rooms_disjoint:
  assumes "generate_rooms max_rooms room_min_size room_max_size map_width map_height
             max_monsters_per_room player g = Inr (st, g')"
  shows "\<forall>i < length (rooms st). \<forall>j < length (rooms st).
           i \<noteq> j \<longrightarrow> \<not> intersects (rooms st ! i) (rooms st ! j)"
proof -
  from assms have "no_overlap (rooms st)"
    by (rule generate_rooms_invariant)
       (simp_all add: no_overlap_def attempt_room_no_overlap [unfolded no_overlap_def])
  then show ?thesis by (simp add: no_overlap_def)
qed

theorem accepted_rooms_disjoint_witness:
  "rooms (fst (projr sample_run)) = [RectangularRoom 1 1 3 3, RectangularRoom 7 5 3 4]
   \<and> \<not> intersects (rooms (fst (projr sample_run)) ! 0) (rooms (fst (projr sample_run)) ! 1)
   \<and> \<not> intersects (rooms (fst (projr sample_run)) ! 1) (rooms (fst (projr sample_run)) ! 0)"
proof -
  note d = accepted_rooms_disjoint [OF sample_run_Inr, rule_format]
  have "\<not> intersects (rooms (fst (projr sample_run)) ! 0) (rooms (fst (projr sample_run)) ! 1)"
    "\<not> intersects (rooms (fst (projr sample_run)) ! 1) (rooms (fst (projr sample_run)) ! 0)"
    by (rule d; simp add: sample_run_rooms)+
  with sample_run_rooms show ?thesis by (simp only: simp_thms)
qed

text \<open>
  Claim C2: for a room size of at least zero (the sizes are positive by the input
  contract), in the map returned by \<open>generate_dungeon\<close> every cell of the \<open>inner\<close> region of
  an accepted room holds the floor tile, and every cell of the grid that lies outside all
  these regions and outside every carved corridor path still holds the wall tile it was
  created with.
\<close>

theorem generated_tiles:
  assumes "0 \<le> room_min_size"
    and "generate_rooms max_rooms room_min_size room_max_size map_width map_height
           max_monsters_per_room player g = Inr (st, g')"
  shows "generate_dungeon max_rooms room_min_size room_max_size map_width map_height
           max_monsters_per_room player g = Inr (dungeon st)
    \<and> (\<forall>r \<in> set (rooms st). \<forall>c. in_slices (inner r) c \<longrightarrow> tiles (dungeon st) c = Some floor_tile)
    \<and> (\<forall>c. cell_in_map map_width map_height c
            \<and> (\<forall>r \<in> set (rooms st). \<not> in_slices (inner r) c)
            \<and> (\<forall>p \<in> set (corridors st). c \<notin> set p)
          \<longrightarrow> tiles (dungeon st) c = Some wall_tile)"
proof -
  from generate_rooms_gen_inv [OF assms] have
    t: "tiles (dungeon st) =
      (\<lambda>c. if c \<in> carved_cells st then Some floor_tile else np_full map_width map_height wall_tile c)"
    by (simp add: gen_inv_def)
  have "\<forall>r \<in> set (rooms st). \<forall>c. in_slices (inner r) c \<longrightarrow> tiles (dungeon st) c = Some floor_tile"
    unfolding t by (auto simp: carved_cells_def)
  moreover have "\<forall>c. cell_in_map map_width map_height c
            \<and> (\<forall>r \<in> set (rooms st). \<not> in_slices (inner r) c)
            \<and> (\<forall>p \<in> set (corridors st). c \<notin> set p)
          \<longrightarrow> tiles (dungeon st) c = Some wall_tile"
    unfolding t by (auto simp: carved_cells_def cell_in_map_def np_full_def)
  ultimately show ?thesis using generate_dungeon_eq [OF assms(2)] by blast
qed

theorem generated_tiles_witness:
  "tiles (dungeon (fst (projr sample_run))) (2, 3) = Some floor_tile
   \<and> tiles (dungeon (fst (projr sample_run))) (5, 2) = Some wall_tile"
proof -
  have "(0::int) \<le> 3" by simp
  note t = generated_tiles [OF this sample_run_Inr]
  have "in_slices (inner (RectangularRoom 1 1 3 3)) (2, 3)"
    by (simp add: in_slices_inner RectangularRoom_def)
  with t have "tiles (dungeon (fst (projr sample_run))) (2, 3) = Some floor_tile"
    by (simp add: sample_run_rooms)
  moreover have "cell_in_map 12 10 (5, 2)
      \<and> (\<forall>r \<in> set (rooms (fst (projr sample_run))). \<not> in_slices (inner r) (5, 2))
      \<and> (\<forall>p \<in> set (corridors (fst (projr sample_run))). (5, 2) \<notin> set p)"
    by (simp add: sample_run_rooms sample_run_corridors cell_in_map_def in_slices_inner
          RectangularRoom_def)
  with t have "tiles (dungeon (fst (projr sample_run))) (5, 2) = Some wall_tile" by blast
  ultimately show ?thesis by simp
qed

text \<open>
  Claim C9: every accepted room fits in the map with one tile of margin from the far edge:
  its top-left corner satisfies \<open>0 \<le> x1 \<le> width - room_width - 1\<close> and
  \<open>0 \<le> y1 \<le> height - room_height - 1\<close>, so \<open>x2 \<le> width - 1\<close> and \<open>y2 \<le> height - 1\<close>; and every
  tile write for a room interior or for a corridor stays inside the grid, so that no run
  raises \<open>IndexError\<close>. Room sizes are at least zero and the map sides at most \<open>2 ^ 52\<close>,
  where the midpoint computed by \<open>center\<close> is exact.
\<close>

theorem generated_writes_in_bounds:
  assumes "0 \<le> room_min_size" "map_width \<le> 2 ^ 52" "map_height \<le> 2 ^ 52"
  shows "generate_rooms max_rooms room_min_size room_max_size map_width map_height
           max_monsters_per_room player g \<noteq> Inl IndexError
    \<and> (\<forall>st g'. generate_rooms max_rooms room_min_size room_max_size map_width map_height
           max_monsters_per_room player g = Inr (st, g') \<longrightarrow>
         (\<forall>r \<in> set (rooms st).
            0 \<le> x1 r \<and> x1 r \<le> map_width - (x2 r - x1 r) - 1 \<and> x2 r \<le> map_width - 1
            \<and> 0 \<le> y1 r \<and> y1 r \<le> map_height - (y2 r - y1 r) - 1 \<and> y2 r \<le> map_height - 1
            \<and> (\<forall>c. in_slices (inner r) c \<longrightarrow> cell_in_map map_width map_height c))
         \<and> (\<forall>p \<in> set (corridors st). \<forall>c \<in> set p. cell_in_map map_width map_height c))"
proof (intro conjI allI impI)
  show "generate_rooms max_rooms room_min_size room_max_size map_width map_height
           max_monsters_per_room player g \<noteq> Inl IndexError"
    using generate_rooms_error [OF assms] by fastforce
next
  fix st g'
  assume run: "generate_rooms max_rooms room_min_size room_max_size map_width map_height
           max_monsters_per_room player g = Inr (st, g')"
  from generate_rooms_gen_inv [OF assms(1) run] have inv: "gen_inv map_width map_height st" .
  show "\<forall>r \<in> set (rooms st).
            0 \<le> x1 r \<and> x1 r \<le> map_width - (x2 r - x1 r) - 1 \<and> x2 r \<le> map_width - 1
            \<and> 0 \<le> y1 r \<and> y1 r \<le> map_height - (y2 r - y1 r) - 1 \<and> y2 r \<le> map_height - 1
            \<and> (\<forall>c. in_slices (inner r) c \<longrightarrow> cell_in_map map_width map_height c)"
  proof
    fix r assume "r \<in> set (rooms st)"
    with inv have rm: "room_in_map map_width map_height r" by (simp add: gen_inv_def)
    then show "0 \<le> x1 r \<and> x1 r \<le> map_width - (x2 r - x1 r) - 1 \<and> x2 r \<le> map_width - 1
            \<and> 0 \<le> y1 r \<and> y1 r \<le> map_height - (y2 r - y1 r) - 1 \<and> y2 r \<le> map_height - 1
            \<and> (\<forall>c. in_slices (inner r) c \<longrightarrow> cell_in_map map_width map_height c)"
      using room_in_map_cells [OF rm] by (simp add: room_in_map_def)
  qed
  from inv show "\<forall>p \<in> set (corridors st). \<forall>c \<in> set p. cell_in_map map_width map_height c"
    by (simp add: gen_inv_def)
qed

theorem generated_writes_in_bounds_witness:
  "sample_run \<noteq> Inl IndexError
   \<and> x2 (rooms (fst (projr sample_run)) ! 1) \<le> 11
   \<and> y2 (rooms (fst (projr sample_run)) ! 1) \<le> 9
   \<and> cell_in_map 12 10 (last (hd (corridors (fst (projr sample_run)))))"
proof -
  have "(0::int) \<le> 3" "(12::int) \<le> 2 ^ 52" "(10::int) \<le> 2 ^ 52" by simp_all
  from generated_writes_in_bounds [OF this, of 3 4 1 sample_player
      "stream_of [0, 0, 1, 1, 1, 1, 0, 4, 1, 0, 3, 2, 0, 1, 7, 5, 1, 0]"]
    sample_run_Inr
  have "sample_run \<noteq> Inl IndexError"
    and r: "\<forall>r \<in> set (rooms (fst (projr sample_run))). x2 r \<le> 12 - 1 \<and> y2 r \<le> 10 - 1"
    and c: "\<forall>p \<in> set (corridors (fst (projr sample_run))). \<forall>c \<in> set p. cell_in_map 12 10 c"
    unfolding sample_run_def [symmetric] by fastforce+
  moreover from r have "x2 (rooms (fst (projr sample_run)) ! 1) \<le> 11"
    "y2 (rooms (fst (projr sample_run)) ! 1) \<le> 9"
    by (simp_all add: sample_run_rooms)
  moreover from c have "cell_in_map 12 10 (last (hd (corridors (fst (projr sample_run)))))"
    by (simp add: sample_run_corridors)
  ultimately show ?thesis by (simp only: simp_thms)
qed

text \<open>
  Claim C10, as stated, fails in its statement about every room: \<open>center\<close> divides in
  floating point, and beyond 53 bits the quotient is rounded to the nearest double. The
  room built by \<open>RectangularRoom(2 ** 60 + 1, 0, 2, 2)\<close> has non-negative coordinates and
  extent \<open>2\<close> on both axes, yet its center is \<open>(2 ** 60, 1)\<close>, left of the room and outside
  \<open>inner\<close>.
\<close>

theorem center_outside_inner_counterexample:
  "2 \<le> x2 (RectangularRoom (2 ^ 60 + 1) 0 2 2) - x1 (RectangularRoom (2 ^ 60 + 1) 0 2 2)
   \<and> 2 \<le> y2 (RectangularRoom (2 ^ 60 + 1) 0 2 2) - y1 (RectangularRoom (2 ^ 60 + 1) 0 2 2)
   \<and> 0 \<le> x1 (RectangularRoom (2 ^ 60 + 1) 0 2 2) \<and> 0 \<le> y1 (RectangularRoom (2 ^ 60 + 1) 0 2 2)
   \<and> center (RectangularRoom (2 ^ 60 + 1) 0 2 2) = Inr (2 ^ 60, 1)
   \<and> \<not> in_slices (inner (RectangularRoom (2 ^ 60 + 1) 0 2 2)) (2 ^ 60, 1)"
  by (simp add: center_def RectangularRoom_def int_of_half_def round_half_even_def Let_def
        quantum_small quantum_large in_slices_inner)

text \<open>
  Claim C10, amended: for every room with \<open>x2 - x1 \<ge> 2\<close>, \<open>y2 - y1 \<ge> 2\<close>, non-negative
  coordinates and \<open>x2, y2 < 2 ^ 52\<close>, \<open>center\<close> lies inside the room's \<open>inner\<close> region; and
  whenever \<open>generate_dungeon\<close>, on a map with sides at most \<open>2 ^ 52\<close> and with
  \<open>room_min_size \<ge> 2\<close>, accepts at least one room, the player is the first entity of the
  map, stands at the center of the first accepted room, and the tile there is the floor
  tile, which is walkable.
\<close>

theorem player_on_floor:
  "(2 \<le> x2 r - x1 r \<and> 2 \<le> y2 r - y1 r \<and> 0 \<le> x1 r \<and> 0 \<le> y1 r \<and> x2 r < 2 ^ 52 \<and> y2 r < 2 ^ 52
      \<longrightarrow> (\<exists>c. center r = Inr c \<and> in_slices (inner r) c))
   \<and> (2 \<le> room_min_size \<and> map_width \<le> 2 ^ 52 \<and> map_height \<le> 2 ^ 52
      \<and> generate_rooms max_rooms room_min_size room_max_size map_width map_height
           max_monsters_per_room player g = Inr (st, g')
      \<and> rooms st \<noteq> []
      \<longrightarrow> (\<exists>c ms. center (hd (rooms st)) = Inr c
             \<and> entities (dungeon st) = player\<lparr>ex := fst c, ey := snd c\<rparr> # ms
             \<and> in_slices (inner (hd (rooms st))) c
             \<and> tiles (dungeon st) c = Some floor_tile))
   \<and> walkable floor_tile"
  using center_in_inner [of r]
    first_room_player_floor [of room_min_size map_width map_height max_rooms room_max_size
      max_monsters_per_room player g st g']
  by (simp add: floor_tile_def new_tile_def)

theorem player_on_floor_witness:
  "center (RectangularRoom 1 1 3 3) = Inr (2, 2)
   \<and> in_slices (inner (RectangularRoom 1 1 3 3)) (2, 2)
   \<and> entities (dungeon (fst (projr sample_run))) =
       [sample_player\<lparr>ex := 2, ey := 2\<rparr>, \<lparr>kind = Troll, ex = 3, ey = 2\<rparr>]
   \<and> tiles (dungeon (fst (projr sample_run))) (2, 2) = Some floor_tile
   \<and> walkable floor_tile"
proof -
  let ?r = "RectangularRoom 1 1 3 3"
  let ?st = "fst (projr sample_run)"
  have c: "center ?r = Inr (2, 2)"
    by (simp add: center_exact RectangularRoom_def)
  have e: "entities (dungeon ?st) =
       [sample_player\<lparr>ex := 2, ey := 2\<rparr>, \<lparr>kind = Troll, ex = 3, ey = 2\<rparr>]"
    by code_simp
  have hd: "hd (rooms ?st) = ?r" "rooms ?st \<noteq> []" by (simp_all add: sample_run_rooms)
  note t = player_on_floor [of ?r 3 12 10 3 4 1 sample_player
      "stream_of [0, 0, 1, 1, 1, 1, 0, 4, 1, 0, 3, 2, 0, 1, 7, 5, 1, 0]" ?st
      "snd (projr sample_run)"]
  have size: "2 \<le> x2 ?r - x1 ?r \<and> 2 \<le> y2 ?r - y1 ?r \<and> 0 \<le> x1 ?r \<and> 0 \<le> y1 ?r
      \<and> x2 ?r < 2 ^ 52 \<and> y2 ?r < 2 ^ 52"
    by (simp add: RectangularRoom_def)
  with t obtain c1 where "center ?r = Inr c1" "in_slices (inner ?r) c1" by blast
  with c have inn: "in_slices (inner ?r) (2, 2)" by simp
  have "(2::int) \<le> 3 \<and> (12::int) \<le> 2 ^ 52 \<and> (10::int) \<le> 2 ^ 52" by simp
  with t sample_run_Inr hd(2) obtain c2 where
    "center (hd (rooms ?st)) = Inr c2" "tiles (dungeon ?st) c2 = Some floor_tile"
    by blast
  with c hd(1) have fl: "tiles (dungeon ?st) (2, 2) = Some floor_tile" by simp
  from t have "walkable floor_tile" by blast
  with c e inn fl show ?thesis by (simp only: simp_thms)
qed

text \<open>
  Claim C6, as stated, fails: parameters that satisfy the input contract need not give a
  map at all. With \<open>max_rooms = 1\<close>, room sizes \<open>1\<close> to \<open>1\<close>, a \<open>10 \<times> 10\<close> map and at most one
  monster per room, the draws \<open>0, 0, 0, 0, 1\<close> accept the room at \<open>(0, 0)\<close> and ask for one
  monster, whose position is drawn by \<open>randint(1, 0)\<close>: the run ends in \<open>ValueError\<close>.
\<close>

theorem single_room_value_error_counterexample:
  "generate_rooms 1 1 1 10 10 1 sample_player (stream_of [0, 0, 0, 0, 1]) = Inl ValueError
   \<and> generate_dungeon 1 1 1 10 10 1 sample_player (stream_of [0, 0, 0, 0, 1]) = Inl ValueError"
proof -
  let ?run = "generate_rooms 1 1 1 10 10 1 sample_player (stream_of [0, 0, 0, 0, 1])"
  have "isl ?run" "projl ?run = ValueError" by code_simp+
  then have "?run = Inl ValueError" by (cases ?run) simp_all
  then show ?thesis by (simp add: generate_dungeon_def)
qed

text \<open>
  Claim C6, amended: when \<open>generate_dungeon\<close> is called with \<open>max_rooms = 1\<close>,
  \<open>2 \<le> room_min_size \<le> room_max_size\<close>, \<open>room_max_size\<close> below both map sides, a
  non-negative monster limit and map sides of at most \<open>2 ^ 52\<close>, it returns a map with
  exactly one accepted room and no corridor: the single attempt is not rejected, the
  player is placed at that room's center, and the grid is floor on the room's interior
  and wall everywhere else.
\<close>

theorem single_room:
  assumes "2 \<le> room_min_size" "room_min_size \<le> room_max_size"
    "room_max_size < map_width" "room_max_size < map_height" "0 \<le> max_monsters_per_room"
    "map_width \<le> 2 ^ 52" "map_height \<le> 2 ^ 52"
  shows "\<exists>st g' r c ms.
      generate_rooms 1 room_min_size room_max_size map_width map_height
        max_monsters_per_room player g = Inr (st, g')
      \<and> generate_dungeon 1 room_min_size room_max_size map_width map_height
        max_monsters_per_room player g = Inr (dungeon st)
      \<and> rooms st = [r] \<and> corridors st = [] \<and> center r = Inr c
      \<and> entities (dungeon st) = player\<lparr>ex := fst c, ey := snd c\<rparr> # ms
      \<and> tiles (dungeon st) =
          (\<lambda>cell. if in_slices (inner r) cell then Some floor_tile
                  else np_full map_width map_height wall_tile cell)"
proof -
  let ?s0 = "\<lparr>dungeon = \<lparr>width = map_width, height = map_height,
      tiles = np_full map_width map_height wall_tile, entities = [player]\<rparr>,
      rooms = [], corridors = []\<rparr>"
  from first_attempt_accepts [OF assms refl, of player g] obtain st g' r c ms where
    a: "attempt_room room_min_size room_max_size max_monsters_per_room ?s0 g = Inr (st, g')" and
    p: "rooms st = [r]" "corridors st = []" "center r = Inr c"
      "entities (dungeon st) = player\<lparr>ex := fst c, ey := snd c\<rparr> # ms"
      "tiles (dungeon st) =
          (\<lambda>cell. if in_slices (inner r) cell then Some floor_tile
                  else np_full map_width map_height wall_tile cell)"
    by blast
  from assms have "\<not> (map_width < 0 \<or> map_height < 0)" by simp
  with a have run: "generate_rooms 1 room_min_size room_max_size map_width map_height
        max_monsters_per_room player g = Inr (st, g')"
    by (simp add: generate_rooms_def GameMap_def)
  from run generate_dungeon_eq [OF run] p show ?thesis by blast
qed

theorem single_room_witness:
  "\<exists>st g' r c ms.
      generate_rooms 1 3 4 12 10 1 sample_player (stream_of [0, 0, 1, 1, 1, 1, 0, 4]) = Inr (st, g')
      \<and> generate_dungeon 1 3 4 12 10 1 sample_player (stream_of [0, 0, 1, 1, 1, 1, 0, 4]) =
          Inr (dungeon st)
      \<and> rooms st = [r] \<and> corridors st = [] \<and> center r = Inr c
      \<and> entities (dungeon st) = sample_player\<lparr>ex := fst c, ey := snd c\<rparr> # ms
      \<and> tiles (dungeon st) =
          (\<lambda>cell. if in_slices (inner r) cell then Some floor_tile
                  else np_full 12 10 wall_tile cell)"
  by (rule single_room) simp_all

text \<open>
  Claim C8, as stated, fails: the generator validates nothing, and parameters outside the
  contract can give a map instead of an error. With \<open>max_rooms = 1\<close>, room sizes \<open>-1\<close> to
  \<open>-1\<close>, a \<open>10 \<times> 10\<close> map and no monsters, the run returns a map whose only room has
  \<open>x2 = y2 = -1\<close>; the slices of \<open>inner\<close> count from the end of the array, so the cell
  \<open>(5, 5)\<close> is carved, and the player is placed on the wall tile at \<open>(0, 0)\<close>. And with
  \<open>max_rooms = 0\<close> the loop never runs, so \<open>room_min_size = 5 > room_max_size = 3\<close> returns
  a map as well.
\<close>

theorem negative_room_size_counterexample:
  "generate_dungeon 1 (- 1) (- 1) 10 10 0 sample_player (stream_of []) =
     Inr (dungeon (fst (projr (generate_rooms 1 (- 1) (- 1) 10 10 0 sample_player (stream_of [])))))
   \<and> rooms (fst (projr (generate_rooms 1 (- 1) (- 1) 10 10 0 sample_player (stream_of [])))) =
       [\<lparr>x1 = 0, y1 = 0, x2 = - 1, y2 = - 1\<rparr>]
   \<and> tiles (dungeon (fst (projr (generate_rooms 1 (- 1) (- 1) 10 10 0 sample_player
         (stream_of []))))) (5, 5) = Some floor_tile
   \<and> entities (dungeon (fst (projr (generate_rooms 1 (- 1) (- 1) 10 10 0 sample_player
         (stream_of []))))) = [sample_player\<lparr>ex := 0, ey := 0\<rparr>]
   \<and> tiles (dungeon (fst (projr (generate_rooms 1 (- 1) (- 1) 10 10 0 sample_player
         (stream_of []))))) (0, 0) = Some wall_tile
   \<and> \<not> isl (generate_dungeon 0 5 3 10 10 0 sample_player (stream_of []))"
proof -
  let ?run = "generate_rooms 1 (- 1) (- 1) 10 10 0 sample_player (stream_of [])"
  have "\<not> isl ?run" by code_simp
  then have "?run = Inr (fst (projr ?run), snd (projr ?run))" by (cases ?run) simp_all
  from generate_dungeon_eq [OF this]
  have "generate_dungeon 1 (- 1) (- 1) 10 10 0 sample_player (stream_of []) =
     Inr (dungeon (fst (projr ?run)))" .
  moreover have "rooms (fst (projr ?run)) = [\<lparr>x1 = 0, y1 = 0, x2 = - 1, y2 = - 1\<rparr>]"
    by code_simp
  moreover have "tiles (dungeon (fst (projr ?run))) (5, 5) = Some floor_tile" by code_simp
  moreover have "entities (dungeon (fst (projr ?run))) = [sample_player\<lparr>ex := 0, ey := 0\<rparr>]"
    by code_simp
  moreover have "tiles (dungeon (fst (projr ?run))) (0, 0) = Some wall_tile" by code_simp
  moreover have "\<not> isl (generate_dungeon 0 5 3 10 10 0 sample_player (stream_of []))"
    by code_simp
  ultimately show ?thesis by (simp only: simp_thms)
qed

text \<open>
  Claim C8, amended: if \<open>generate_dungeon\<close> is called with \<open>max_rooms \<ge> 1\<close> and either
  \<open>room_min_size > room_max_size\<close> or a map side not larger than \<open>room_min_size\<close> (no room
  size fits), it raises \<open>ValueError\<close>, from the random draws of the first attempt or from
  the creation of the map, and returns no map.
\<close>

theorem bad_parameters_value_error:
  assumes "1 \<le> max_rooms"
    and "room_max_size < room_min_size \<or> map_width \<le> room_min_size \<or> map_height \<le> room_min_size"
  shows "generate_dungeon max_rooms room_min_size room_max_size map_width map_height
           max_monsters_per_room player g = Inl ValueError"
proof (cases "map_width < 0 \<or> map_height < 0")
  case True
  then show ?thesis by (auto simp: generate_dungeon_def generate_rooms_def GameMap_def)
next
  case False
  from assms(1) obtain k where k: "nat max_rooms = Suc k" by (cases "nat max_rooms") simp_all
  let ?s0 = "\<lparr>dungeon = \<lparr>width = map_width, height = map_height,
      tiles = np_full map_width map_height wall_tile, entities = [player]\<rparr>,
      rooms = [], corridors = []\<rparr>"
  from assms(2) have "attempt_room room_min_size room_max_size max_monsters_per_room ?s0 g =
      Inl ValueError"
    by (intro attempt_room_value_error) simp
  with False k show ?thesis
    by (simp add: generate_dungeon_def generate_rooms_def GameMap_def)
qed

theorem bad_parameters_value_error_witness:
  "generate_dungeon 30 10 6 80 45 2 sample_player (stream_of []) = Inl ValueError
   \<and> generate_dungeon 30 6 10 5 45 2 sample_player (stream_of []) = Inl ValueError"
  using bad_parameters_value_error [of 30 6 10 80 45 2 sample_player "stream_of []"]
    bad_parameters_value_error [of 30 10 6 5 45 2 sample_player "stream_of []"]
  by simp

end
